theory Spec2Isabelle
  imports Complex_Main "HOL-Library.Multiset" "HOL-Library.Product_Lexorder"
    "HOL-Library.Option_ord"
begin

section \<open>Values, series and frames\<close>

text \<open>
  The notebooks compute on pandas objects. A numeric cell is a float64 (or an int64 that
  is turned into a float64 by the first division); it is modelled as an exact real, with
  \<open>None\<close> for NaN. Rounding, the two infinities and the sign of zero are outside the model.
  A Series is the list of its cells in positional order; a DataFrame is its index (the row
  labels, in positional order) and its named columns. Every exception the code can raise
  is a value of \<open>error\<close>.
\<close>

datatype error = KeyError | ValueError | IndexError

type_synonym cell = "real option"

type_synonym series = "cell list"

record dataframe =
  df_index :: "nat list"
  df_cols :: "string \<rightharpoonup> series"

text \<open>All columns of a frame have one cell per index label.\<close>

definition wf_frame :: "dataframe \<Rightarrow> bool" where
  "wf_frame df = (\<forall>c s. df_cols df c = Some s \<longrightarrow> length s = length (df_index df))"

text \<open>\<open>df[c]\<close> raises KeyError (\<open>None\<close> here) for a missing column; \<open>df[c] = s\<close> adds or
  overwrites the column.\<close>

definition getitem :: "dataframe \<Rightarrow> string \<Rightarrow> series option" where
  "getitem df c = df_cols df c"

definition setitem :: "dataframe \<Rightarrow> string \<Rightarrow> series \<Rightarrow> dataframe" where
  "setitem df c s = df\<lparr>df_cols := (df_cols df)(c \<mapsto> s)\<rparr>"

subsection \<open>Cell arithmetic\<close>

text \<open>Every arithmetic operation propagates NaN. A float64 division by zero does not raise:
  it gives NaN for \<open>0 / 0\<close> and an infinity otherwise. The model has no infinity, so
  \<open>fdiv\<close> gives NaN for every zero divisor; \<open>engineer_features\<close> only divides by series that
  went through \<open>replace(0, 1)\<close>, which hold no zero (lemma \<open>freplace_0_1_nonzero\<close>).\<close>

fun fmul :: "cell \<Rightarrow> cell \<Rightarrow> cell" where
  "fmul (Some a) (Some b) = Some (a * b)"
| "fmul _ _ = None"

fun fadd :: "cell \<Rightarrow> cell \<Rightarrow> cell" where
  "fadd (Some a) (Some b) = Some (a + b)"
| "fadd _ _ = None"

fun fdiv :: "cell \<Rightarrow> cell \<Rightarrow> cell" where
  "fdiv (Some a) (Some b) = (if b = 0 then None else Some (a / b))"
| "fdiv _ _ = None"

definition fabs :: "cell \<Rightarrow> cell" where
  "fabs x = map_option abs x"

definition fsub_scalar :: "cell \<Rightarrow> real \<Rightarrow> cell" where
  "fsub_scalar x c = map_option (\<lambda>a. a - c) x"

definition fpow2 :: "cell \<Rightarrow> cell" where
  "fpow2 x = map_option (\<lambda>a. a ^ 2) x"

definition fsqrt :: "cell \<Rightarrow> cell" where
  "fsqrt x = (case x of None \<Rightarrow> None | Some a \<Rightarrow> if a < 0 then None else Some (sqrt a))"

definition freplace :: "real \<Rightarrow> real \<Rightarrow> cell \<Rightarrow> cell" where
  "freplace old new x = (if x = Some old then Some new else x)"

definition ffillna :: "real \<Rightarrow> cell \<Rightarrow> cell" where
  "ffillna v x = (case x of None \<Rightarrow> Some v | Some a \<Rightarrow> Some a)"

subsection \<open>Series operations\<close>

text \<open>The operands of every binary operation below are columns of one frame, so they share
  their index and pandas combines them position by position.\<close>

definition smul :: "series \<Rightarrow> series \<Rightarrow> series" where
  "smul xs ys = map2 fmul xs ys"

definition sadd :: "series \<Rightarrow> series \<Rightarrow> series" where
  "sadd xs ys = map2 fadd xs ys"

definition sdiv :: "series \<Rightarrow> series \<Rightarrow> series" where
  "sdiv xs ys = map2 fdiv xs ys"

definition sabs :: "series \<Rightarrow> series" where
  "sabs xs = map fabs xs"

definition ssub_scalar :: "series \<Rightarrow> real \<Rightarrow> series" where
  "ssub_scalar xs c = map (\<lambda>x. fsub_scalar x c) xs"

definition spow2 :: "series \<Rightarrow> series" where
  "spow2 xs = map fpow2 xs"

definition ssqrt :: "series \<Rightarrow> series" where
  "ssqrt xs = map fsqrt xs"

definition sreplace :: "real \<Rightarrow> real \<Rightarrow> series \<Rightarrow> series" where
  "sreplace old new xs = map (freplace old new) xs"

definition sfillna :: "real \<Rightarrow> series \<Rightarrow> series" where
  "sfillna v xs = map (ffillna v) xs"

section \<open>Feature Engine: \<open>engineer_features\<close>\<close>

definition city_center_lat :: real where
  "city_center_lat = 41.8781"

definition city_center_lon :: real where
  "city_center_lon = - 87.6298"

text \<open>
  The body of \<open>engineer_features(df)\<close>, statement by statement, on the frame that \<open>df\<close>
  refers to. The result is the frame as the body left it and the exception that ended the
  body, if any: a KeyError from a missing input column leaves the columns assigned before
  it in place. \<open>with_col df c k\<close> reads \<open>df[c]\<close> and goes on with \<open>k\<close>, or stops with the
  KeyError.
\<close>

definition with_col :: "dataframe \<Rightarrow> string \<Rightarrow> (series \<Rightarrow> dataframe \<times> error option)
    \<Rightarrow> dataframe \<times> error option" where
  "with_col df c k = (case getitem df c of None \<Rightarrow> (df, Some KeyError) | Some s \<Rightarrow> k s)"

definition engineer_body :: "dataframe \<Rightarrow> dataframe \<times> error option" where
  "engineer_body df0 =
     with_col df0 ''latitude'' (\<lambda>lat. with_col df0 ''longitude'' (\<lambda>lon.
     let denominator = sabs (smul lat lon) in
     with_col df0 ''CrimeCount'' (\<lambda>cc.
     let df1 = setitem df0 ''CrimeDensity'' (sdiv cc (sreplace 0 1 denominator)) in
     with_col df1 ''CrimeDensity'' (\<lambda>cd.
     let df2 = setitem df1 ''CrimeDensity'' (sfillna 0 cd) in
     with_col df2 ''ViolentCount'' (\<lambda>vc. with_col df2 ''CrimeCount'' (\<lambda>cc.
     let df3 = setitem df2 ''ViolentRatio'' (sdiv vc (sreplace 0 1 cc)) in
     with_col df3 ''ViolentRatio'' (\<lambda>vr.
     let df4 = setitem df3 ''ViolentRatio'' (sfillna 0 vr) in
     with_col df4 ''latitude'' (\<lambda>lat. with_col df4 ''longitude'' (\<lambda>lon.
     let df5 = setitem df4 ''DistanceFromCenter''
                 (ssqrt (sadd (spow2 (ssub_scalar (sfillna city_center_lat lat) city_center_lat))
                              (spow2 (ssub_scalar (sfillna city_center_lon lon) city_center_lon))))
     in (df5, None))))))))))"

text \<open>
  Python passes the DataFrame by reference: \<open>engineer_features\<close> assigns the new columns to
  the object it was given and returns that same object. The heap maps a reference to the
  frame it currently holds; \<open>copy\<close> allocates a fresh reference holding an equal frame.
\<close>

type_synonym ref = nat

record heap =
  objs :: "ref \<Rightarrow> dataframe"
  next_ref :: ref

definition engineer_features :: "ref \<Rightarrow> heap \<Rightarrow> (error + ref) \<times> heap" where
  "engineer_features df h =
    (case engineer_body (objs h df) of
       (frame, Some e) \<Rightarrow> (Inl e, h\<lparr>objs := (objs h)(df := frame)\<rparr>)
     | (frame, None) \<Rightarrow> (Inr df, h\<lparr>objs := (objs h)(df := frame)\<rparr>))"

definition copy :: "ref \<Rightarrow> heap \<Rightarrow> ref \<times> heap" where
  "copy df h = (next_ref h, h\<lparr>objs := (objs h)(next_ref h := objs h df), next_ref := Suc (next_ref h)\<rparr>)"

text \<open>The call sites: \<open>X_fe = engineer_features(X.copy())\<close>.\<close>

definition engineer_copy :: "ref \<Rightarrow> heap \<Rightarrow> (error + ref) \<times> heap" where
  "engineer_copy X h = (case copy X h of (c, h') \<Rightarrow> engineer_features c h')"

text \<open>The row at position \<open>i\<close> of a frame: its cell in each column.\<close>

definition cell_at :: "dataframe \<Rightarrow> string \<Rightarrow> nat \<Rightarrow> cell option" where
  "cell_at df c i = (case df_cols df c of None \<Rightarrow> None
                     | Some s \<Rightarrow> if i < length s then Some (s ! i) else None)"


text \<open>The rows the Feature Engine reads are location aggregates: \<open>CrimeCount\<close> and
  \<open>ViolentCount\<close> are numbers, and the violent incidents of a location are among its
  incidents. \<open>counts_consistent df i\<close> says so of row \<open>i\<close>.\<close>

definition counts_consistent :: "dataframe \<Rightarrow> nat \<Rightarrow> bool" where
  "counts_consistent df i =
     (case (cell_at df ''CrimeCount'' i, cell_at df ''ViolentCount'' i) of
        (Some (Some c), Some (Some v)) \<Rightarrow> 0 \<le> v \<and> v \<le> c
      | _ \<Rightarrow> False)"

text \<open>\<open>engineer_features(engineer_features(df))\<close>: the second call runs on what the first
  returned and on the heap the first left; an exception of the first call propagates.\<close>

definition engineer_twice :: "ref \<Rightarrow> heap \<Rightarrow> (error + ref) \<times> heap" where
  "engineer_twice df h =
     (case engineer_features df h of
        (Inl e, h1) \<Rightarrow> (Inl e, h1)
      | (Inr r, h1) \<Rightarrow> engineer_features r h1)"

definition new_columns :: "string set" where
  "new_columns = {''CrimeDensity'', ''ViolentRatio'', ''DistanceFromCenter''}"

text \<open>The frame \<open>X\<close> of the feature notebook, as \<open>read_csv\<close> and \<open>drop(columns=["Risk"])\<close>
  leave it: a range index and the four aggregate columns. \<open>heap_of df\<close> is a heap whose
  only allocated object, at reference 0, is \<open>df\<close>.\<close>

definition frame_of :: "series \<Rightarrow> series \<Rightarrow> series \<Rightarrow> series \<Rightarrow> dataframe" where
  "frame_of lat lon cc vc =
     \<lparr>df_index = [0..<length lat],
      df_cols = [''latitude'' \<mapsto> lat, ''longitude'' \<mapsto> lon,
                 ''CrimeCount'' \<mapsto> cc, ''ViolentCount'' \<mapsto> vc]\<rparr>"

definition heap_of :: "dataframe \<Rightarrow> heap" where
  "heap_of df = \<lparr>objs = (\<lambda>_. df), next_ref = 1\<rparr>"

section \<open>ETL: cleaning, aggregation and the Risk label\<close>

text \<open>
  The extraction cell hands over \<open>results\<close>, a list of records (one dictionary of strings per
  incident; the API leaves a field out when it has no value). \<open>DataFrame.from_records\<close> makes
  a column of every field that occurs in some record and a missing value where a record
  lacks it; of an empty list it makes a frame without columns. The cleaned frame has typed
  columns, so its rows are records here.
\<close>

type_synonym raw_record = "string \<rightharpoonup> string"

record datetime =
  hour :: nat
  dayofweek :: nat

record located =
  latitude :: real
  longitude :: real

record incident = located +
  date :: "datetime option"
  primary_type :: "string option"
  Hour :: "nat option"
  DayOfWeek :: "nat option"
  IsViolent :: int

record aggregate = located +
  CrimeCount :: int
  ViolentCount :: int

record labelled = aggregate +
  Risk :: int

definition columns :: "string list" where
  "columns = [''date'', ''latitude'', ''longitude'', ''primary_type'']"

definition violent_crimes :: "string list" where
  "violent_crimes = [''HOMICIDE'', ''ASSAULT'', ''BATTERY'', ''ROBBERY'', ''CRIM SEXUAL ASSAULT'']"

definition has_column :: "raw_record list \<Rightarrow> string \<Rightarrow> bool" where
  "has_column results c = list_ex (\<lambda>r. r c \<noteq> None) results"

text \<open>\<open>pd.to_numeric(..., errors="coerce")\<close>: the library's float parser is the parameter
  \<open>parse_float\<close>; a missing value stays missing and a string that does not parse becomes NaN.\<close>

definition to_numeric :: "(string \<Rightarrow> real option) \<Rightarrow> string option \<Rightarrow> cell" where
  "to_numeric parse_float v = (case v of None \<Rightarrow> None | Some s \<Rightarrow> parse_float s)"

text \<open>\<open>dropna(subset=["latitude", "longitude"])\<close> on the rows with their coerced coordinates.\<close>

fun dropna :: "(cell \<times> cell \<times> raw_record) list \<Rightarrow> (real \<times> real \<times> raw_record) list" where
  "dropna [] = []"
| "dropna ((Some la, Some lo, r) # rows) = (la, lo, r) # dropna rows"
| "dropna (_ # rows) = dropna rows"

text \<open>\<open>pd.to_datetime\<close>: the library's timestamp parser is the parameter \<open>parse_date\<close>
  (\<open>None\<close> for a string it rejects, which makes \<open>to_datetime\<close> raise); a missing value
  becomes NaT.\<close>

definition bad_date :: "(string \<Rightarrow> datetime option) \<Rightarrow> raw_record \<Rightarrow> bool" where
  "bad_date parse_date r = (case r ''date'' of None \<Rightarrow> False | Some s \<Rightarrow> parse_date s = None)"

definition isin :: "string option \<Rightarrow> string list \<Rightarrow> bool" where
  "isin v xs = (case v of None \<Rightarrow> False | Some s \<Rightarrow> s \<in> set xs)"

definition extract_features :: "(string \<Rightarrow> datetime option) \<Rightarrow> real \<times> real \<times> raw_record \<Rightarrow> incident" where
  "extract_features parse_date row =
     (case row of (la, lo, r) \<Rightarrow>
        let d = Option.bind (r ''date'') parse_date in
        \<lparr>latitude = la, longitude = lo, date = d, primary_type = r ''primary_type'',
         Hour = map_option hour d, DayOfWeek = map_option dayofweek d,
         IsViolent = (if isin (r ''primary_type'') violent_crimes then 1 else 0)\<rparr>)"

text \<open>The cleaning cell (step 5): select the four columns, coerce the coordinates, drop the
  rows without both coordinates, parse the dates, add the indicator.\<close>

definition clean :: "(string \<Rightarrow> real option) \<Rightarrow> (string \<Rightarrow> datetime option) \<Rightarrow> raw_record list
    \<Rightarrow> error + incident list" where
  "clean parse_float parse_date results =
     (if \<not> list_all (has_column results) columns then Inl KeyError
      else
        let df = dropna (map (\<lambda>r. (to_numeric parse_float (r ''latitude''),
                                     to_numeric parse_float (r ''longitude''), r)) results)
        in if list_ex (\<lambda>row. bad_date parse_date (snd (snd row))) df then Inl ValueError
           else Inr (map (extract_features parse_date) df))"

text \<open>The aggregation cell (step 6). \<open>groupby\<close> makes one group per distinct coordinate pair,
  in ascending order of the pair; \<open>count\<close> counts the non-missing \<open>primary_type\<close> values of the
  group and \<open>sum\<close> adds its indicators.\<close>

definition location_key :: "incident \<Rightarrow> real \<times> real" where
  "location_key r = (latitude r, longitude r)"

definition location_counts :: "incident list \<Rightarrow> aggregate list" where
  "location_counts df =
     map (\<lambda>k. let g = filter (\<lambda>r. location_key r = k) df in
            \<lparr>latitude = fst k, longitude = snd k,
             CrimeCount = int (length (filter (\<lambda>r. primary_type r \<noteq> None) g)),
             ViolentCount = sum_list (map IsViolent g)\<rparr>)
         (sort (remdups (map location_key df)))"

text \<open>\<open>Series.median()\<close> of an integer column: NaN for an empty column, the middle value of
  the sorted column for an odd length, the mean of the two middle values for an even one.\<close>

definition median :: "int list \<Rightarrow> cell" where
  "median xs =
     (if xs = [] then None
      else let s = sort xs; n = length s in
        if odd n then Some (real_of_int (s ! (n div 2)))
        else Some ((real_of_int (s ! (n div 2 - 1)) + real_of_int (s ! (n div 2))) / 2))"

text \<open>\<open>x > m\<close> on floats is false when \<open>m\<close> is NaN.\<close>

definition gt_cell :: "real \<Rightarrow> cell \<Rightarrow> bool" where
  "gt_cell x m = (case m of None \<Rightarrow> False | Some y \<Rightarrow> y < x)"

definition label_risk :: "aggregate list \<Rightarrow> labelled list" where
  "label_risk lc =
     (let median_count = median (map CrimeCount lc) in
      map (\<lambda>r. \<lparr>latitude = latitude r, longitude = longitude r,
                CrimeCount = CrimeCount r, ViolentCount = ViolentCount r,
                Risk = (if gt_cell (real_of_int (CrimeCount r)) median_count then 1 else 0)\<rparr>) lc)"

text \<open>What it means for \<open>m\<close> to be a median of \<open>xs\<close>, independently of how it is computed: at
  most half of the values lie strictly below \<open>m\<close> and at most half strictly above.\<close>

definition is_median :: "real \<Rightarrow> int list \<Rightarrow> bool" where
  "is_median m xs =
     (2 * length (filter (\<lambda>x. real_of_int x < m) xs) \<le> length xs
      \<and> 2 * length (filter (\<lambda>x. m < real_of_int x) xs) \<le> length xs)"


text \<open>What the cleaning cell establishes for every row it produces: the indicator is 1 for
  a category of the violent list and 0 otherwise, also for a missing category.\<close>

definition normalized :: "incident \<Rightarrow> bool" where
  "normalized r = (IsViolent r = (if isin (primary_type r) violent_crimes then 1 else 0))"

text \<open>The hand-over between the notebooks: \<open>location_counts.to_csv(..., index=False)\<close> writes
  the five columns, and \<open>pd.read_csv\<close> of that file gives them back under a range index.\<close>

definition transformed_frame :: "labelled list \<Rightarrow> dataframe" where
  "transformed_frame rows =
     \<lparr>df_index = [0..<length rows],
      df_cols = [''latitude'' \<mapsto> map (\<lambda>r. Some (latitude r)) rows,
                 ''longitude'' \<mapsto> map (\<lambda>r. Some (longitude r)) rows,
                 ''CrimeCount'' \<mapsto> map (\<lambda>r. Some (real_of_int (CrimeCount r))) rows,
                 ''ViolentCount'' \<mapsto> map (\<lambda>r. Some (real_of_int (ViolentCount r))) rows,
                 ''Risk'' \<mapsto> map (\<lambda>r. Some (real_of_int (Risk r))) rows]\<rparr>"

section \<open>Feature notebook: the train, validation and test split\<close>

text \<open>A Series with its index, as \<open>y = df["Risk"]\<close>.\<close>

record pseries =
  s_index :: "nat list"
  s_values :: series

definition bind_e :: "error + 'a \<Rightarrow> ('a \<Rightarrow> error + 'b) \<Rightarrow> error + 'b" where
  "bind_e m k = (case m of Inl e \<Rightarrow> Inl e | Inr x \<Rightarrow> k x)"

definition drop_column :: "dataframe \<Rightarrow> string \<Rightarrow> error + dataframe" where
  "drop_column df c =
     (if df_cols df c = None then Inl KeyError else Inr (df\<lparr>df_cols := (df_cols df)(c := None)\<rparr>))"

definition column :: "dataframe \<Rightarrow> string \<Rightarrow> error + pseries" where
  "column df c =
     (case getitem df c of None \<Rightarrow> Inl KeyError
      | Some s \<Rightarrow> Inr \<lparr>s_index = df_index df, s_values = s\<rparr>)"

definition notnull :: "pseries \<Rightarrow> bool list" where
  "notnull y = map (\<lambda>v. v \<noteq> None) (s_values y)"

text \<open>Selection of rows by position (\<open>iloc\<close>). The callers pass positions inside the frame:
  those of a mask over its own rows, or positions checked by \<open>train_test_split\<close>.\<close>

definition take_rows :: "dataframe \<Rightarrow> nat list \<Rightarrow> dataframe" where
  "take_rows df ps =
     \<lparr>df_index = map (\<lambda>i. df_index df ! i) ps,
      df_cols = (\<lambda>c. map_option (\<lambda>s. map (\<lambda>i. s ! i) ps) (df_cols df c))\<rparr>"

definition take_values :: "pseries \<Rightarrow> nat list \<Rightarrow> pseries" where
  "take_values y ps =
     \<lparr>s_index = map (\<lambda>i. s_index y ! i) ps, s_values = map (\<lambda>i. s_values y ! i) ps\<rparr>"

text \<open>\<open>X[mask]\<close> and \<open>y[mask]\<close> keep the positions where the mask holds, in order. The mask is
  \<open>y.notnull()\<close> of the same frame, so it has one entry per row.\<close>

definition mask_positions :: "bool list \<Rightarrow> nat list" where
  "mask_positions keep = filter (\<lambda>i. keep ! i) [0..<length keep]"

definition select_rows :: "dataframe \<Rightarrow> bool list \<Rightarrow> dataframe" where
  "select_rows df keep = take_rows df (mask_positions keep)"

definition select_values :: "pseries \<Rightarrow> bool list \<Rightarrow> pseries" where
  "select_values y keep = take_values y (mask_positions keep)"

subsection \<open>The library's stratified split\<close>

text \<open>
  \<open>train_test_split(X, y, test_size=t, random_state=42, stratify=y)\<close> is scikit-learn's
  (\<open>sklearn.model_selection\<close>): it validates the sizes, lets \<open>StratifiedShuffleSplit\<close> draw
  the train and the test positions class by class, and selects these positions from \<open>X\<close>
  and from \<open>y\<close>. The functions below follow the library's \<open>_validate_shuffle_split\<close>,
  \<open>_approximate_mode\<close> and \<open>StratifiedShuffleSplit._iter_indices\<close>, with exact arithmetic
  for the library's float64 quotients.

  The generator \<open>numpy.random.RandomState(42)\<close> is a parameter: the state it starts in and
  the two draws the split makes from it, each returning the drawn value and the next state.
  \<open>rng_permutation n\<close> is \<open>rng.permutation(n)\<close>; \<open>rng_choice xs k\<close> is
  \<open>rng.choice(xs, size=k, replace=False)\<close>.
\<close>

record 'g numpy_random =
  seed_state :: 'g
  rng_permutation :: "nat \<Rightarrow> 'g \<Rightarrow> nat list \<times> 'g"
  rng_choice :: "nat list \<Rightarrow> nat \<Rightarrow> 'g \<Rightarrow> nat list \<times> 'g"

text \<open>What numpy documents of the two draws: a permutation of \<open>0, ..., n - 1\<close>, and \<open>k\<close>
  different elements of \<open>xs\<close>.\<close>

definition numpy_random_ok :: "'g numpy_random \<Rightarrow> bool" where
  "numpy_random_ok R =
     ((\<forall>n g. mset (fst (rng_permutation R n g)) = mset [0..<n])
      \<and> (\<forall>xs k g. distinct xs \<and> k \<le> length xs \<longrightarrow>
            length (fst (rng_choice R xs k g)) = k
            \<and> distinct (fst (rng_choice R xs k g))
            \<and> set (fst (rng_choice R xs k g)) \<subseteq> set xs))"

text \<open>\<open>_validate_shuffle_split\<close> for a float \<open>test_size\<close> and no \<open>train_size\<close>.\<close>

definition validate_shuffle_split :: "nat \<Rightarrow> real \<Rightarrow> error + nat \<times> nat" where
  "validate_shuffle_split n_samples test_size =
     (if test_size \<le> 0 \<or> 1 \<le> test_size then Inl ValueError
      else
        let n_test = nat \<lceil>test_size * real n_samples\<rceil>;
            n_train = n_samples - n_test
        in if n_train = 0 then Inl ValueError else Inr (n_train, n_test))"

text \<open>\<open>np.where(remainder == value)\<close> and \<open>floored[inds] += 1\<close>.\<close>

definition where_eq :: "real list \<Rightarrow> real \<Rightarrow> nat list" where
  "where_eq remainder v = filter (\<lambda>i. remainder ! i = v) [0..<length remainder]"

definition add_at :: "nat list \<Rightarrow> int list \<Rightarrow> int list" where
  "add_at inds floored =
     map (\<lambda>i. if i \<in> set inds then floored ! i + 1 else floored ! i) [0..<length floored]"

text \<open>The loop of \<open>_approximate_mode\<close> over the distinct remainders, largest first: it adds
  one draw to classes of the current remainder, all of them or as many as are still needed
  (chosen at random), and stops when nothing is left to add.\<close>

fun add_by_remainder :: "'g numpy_random \<Rightarrow> real list \<Rightarrow> real list \<Rightarrow> int list \<Rightarrow> nat \<Rightarrow> 'g
    \<Rightarrow> int list \<times> 'g" where
  "add_by_remainder R [] remainder floored need_to_add g = (floored, g)"
| "add_by_remainder R (v # values) remainder floored need_to_add g =
     (let inds = where_eq remainder v;
          add_now = min (length inds) need_to_add;
          (chosen, g') = rng_choice R inds add_now g;
          floored' = add_at chosen floored;
          need' = need_to_add - add_now
      in if need' = 0 then (floored', g')
         else add_by_remainder R values remainder floored' need' g')"

definition approximate_mode :: "'g numpy_random \<Rightarrow> int list \<Rightarrow> nat \<Rightarrow> 'g \<Rightarrow> int list \<times> 'g" where
  "approximate_mode R class_counts n_draws g =
     (let continuous = map (\<lambda>c. real_of_int c / real_of_int (sum_list class_counts) * real n_draws)
                           class_counts;
          floored = map floor continuous;
          need_to_add = int n_draws - sum_list floored
      in if 0 < need_to_add
         then
           let remainder = map (\<lambda>x. x - real_of_int \<lfloor>x\<rfloor>) continuous;
               values = rev (sort (remdups remainder))
           in add_by_remainder R values remainder floored (nat need_to_add) g
         else (floored, g))"

text \<open>\<open>a.take(permutation, mode="clip")\<close>: a position beyond the end stands for the last one.\<close>

definition take_clip :: "nat list \<Rightarrow> nat list \<Rightarrow> nat list" where
  "take_clip a ps = map (\<lambda>p. a ! min p (length a - 1)) ps"

text \<open>The loop over the classes: the positions of class \<open>i\<close> are permuted; the first
  \<open>n_i[i]\<close> go to the train positions, the next \<open>t_i[i]\<close> to the test positions.\<close>

fun class_loop :: "'g numpy_random \<Rightarrow> int list \<Rightarrow> nat list list \<Rightarrow> int list \<Rightarrow> int list
    \<Rightarrow> nat list \<Rightarrow> nat list \<Rightarrow> nat list \<Rightarrow> 'g \<Rightarrow> nat list \<times> nat list \<times> 'g" where
  "class_loop R class_counts class_indices n_i t_i [] train test g = (train, test, g)"
| "class_loop R class_counts class_indices n_i t_i (i # rest) train test g =
     (let (permutation, g') = rng_permutation R (nat (class_counts ! i)) g;
          perm_indices_class_i = take_clip (class_indices ! i) permutation;
          train' = train @ take (nat (n_i ! i)) perm_indices_class_i;
          test' = test @ take (nat (t_i ! i)) (drop (nat (n_i ! i)) perm_indices_class_i)
      in class_loop R class_counts class_indices n_i t_i rest train' test' g')"

text \<open>\<open>rng.permutation(xs)\<close> of a list: its elements in the order of a drawn permutation of
  its positions.\<close>

definition shuffled :: "'g numpy_random \<Rightarrow> nat list \<Rightarrow> 'g \<Rightarrow> nat list \<times> 'g" where
  "shuffled R xs g = (let (p, g') = rng_permutation R (length xs) g in (take_clip xs p, g'))"

text \<open>\<open>StratifiedShuffleSplit(test_size=n_test, train_size=n_train, random_state=42)\<close>, first
  split, stratified by \<open>y\<close>. The classes are the distinct labels in ascending order; a class
  with fewer than two members, or fewer train or test rows than classes, raise ValueError.\<close>

definition stratified_shuffle_split :: "'g numpy_random \<Rightarrow> nat \<Rightarrow> nat \<Rightarrow> series
    \<Rightarrow> error + nat list \<times> nat list" where
  "stratified_shuffle_split R n_train n_test y =
     (let classes = sort (remdups y);
          n_classes = length classes;
          class_counts = map (\<lambda>c. int (count_list y c)) classes
      in if class_counts = [] \<or> list_ex (\<lambda>c. c < 2) class_counts then Inl ValueError
         else if n_train < n_classes then Inl ValueError
         else if n_test < n_classes then Inl ValueError
         else
           let class_indices = map (\<lambda>c. filter (\<lambda>j. y ! j = c) [0..<length y]) classes;
               (n_i, g1) = approximate_mode R class_counts n_train (seed_state R);
               class_counts_remaining = map2 (\<lambda>c n. c - n) class_counts n_i;
               (t_i, g2) = approximate_mode R class_counts_remaining n_test g1;
               (train, test, g3) = class_loop R class_counts class_indices n_i t_i
                                     [0..<n_classes] [] [] g2;
               (train', g4) = shuffled R train g3;
               (test', g5) = shuffled R test g4
           in Inr (train', test'))"

text \<open>\<open>train_test_split\<close>: the arrays must have one length; the positions drawn are selected
  from \<open>X\<close> and from \<open>y\<close>.\<close>

definition train_test_split :: "'g numpy_random \<Rightarrow> dataframe \<Rightarrow> pseries \<Rightarrow> real
    \<Rightarrow> error + dataframe \<times> dataframe \<times> pseries \<times> pseries" where
  "train_test_split R X y test_size =
     (if length (s_values y) \<noteq> length (df_index X) then Inl ValueError
      else
        bind_e (validate_shuffle_split (length (df_index X)) test_size) (\<lambda>(n_train, n_test).
        bind_e (stratified_shuffle_split R n_train n_test (s_values y)) (\<lambda>(train, test).
        if list_all (\<lambda>i. i < length (df_index X)) (train @ test)
        then Inr (take_rows X train, take_rows X test, take_values y train, take_values y test)
        else Inl IndexError)))"

text \<open>The split cell of the feature notebook.\<close>

definition split_cell :: "'g numpy_random \<Rightarrow> dataframe
    \<Rightarrow> error + dataframe \<times> dataframe \<times> dataframe \<times> pseries \<times> pseries \<times> pseries" where
  "split_cell R df =
     bind_e (drop_column df ''Risk'') (\<lambda>X0.
     bind_e (column df ''Risk'') (\<lambda>y0.
     let X = select_rows X0 (notnull y0); y = select_values y0 (notnull y0) in
     bind_e (train_test_split R X y 0.3) (\<lambda>(X_train, X_temp, y_train, y_temp).
     bind_e (train_test_split R X_temp y_temp 0.5) (\<lambda>(X_val, X_test, y_val, y_test).
     Inr (X_train, X_val, X_test, y_train, y_val, y_test)))))"

text \<open>A row of a frame: its index label and its cell in every column. A labelled row: a
  row of \<open>X\<close> with the label that \<open>y\<close> holds at the same position.\<close>

type_synonym row = "nat \<times> (string \<Rightarrow> cell option)"

definition row_at :: "dataframe \<Rightarrow> nat \<Rightarrow> row" where
  "row_at df i = (df_index df ! i, \<lambda>c. map_option (\<lambda>s. s ! i) (df_cols df c))"

definition rows_of :: "dataframe \<Rightarrow> row list" where
  "rows_of df = map (row_at df) [0..<length (df_index df)]"





text \<open>For the loop of \<open>_approximate_mode\<close>: the number of classes whose remainder is among
  \<open>vs\<close> and is not 0.\<close>

definition cntpos :: "real list \<Rightarrow> real list \<Rightarrow> nat" where
  "cntpos rem vs = length (filter (\<lambda>i. rem ! i \<in> set vs \<and> rem ! i \<noteq> 0) [0..<length rem])"

section \<open>Sample data\<close>

text \<open>Concrete frames, aggregates, incidents and raw records on which the properties below
  are evaluated.\<close>

definition sample_frame :: dataframe where
  "sample_frame =
     frame_of [Some 0, Some 41.9, Some 41.8781, Some 41.8781]
              [Some (- 87.6298), Some (- 87.7), Some (- 87.6298), Some (- 87.6298)]
              [Some 3, Some 2, Some 0, Some 0]
              [Some 1, Some 1, Some 0, Some 0]"

definition sample_counts :: "aggregate list" where
  "sample_counts =
     [\<lparr>latitude = 41.1, longitude = - 87.6, CrimeCount = 1, ViolentCount = 0\<rparr>,
      \<lparr>latitude = 41.2, longitude = - 87.6, CrimeCount = 1, ViolentCount = 0\<rparr>,
      \<lparr>latitude = 41.3, longitude = - 87.6, CrimeCount = 1, ViolentCount = 1\<rparr>,
      \<lparr>latitude = 41.4, longitude = - 87.6, CrimeCount = 1, ViolentCount = 0\<rparr>,
      \<lparr>latitude = 41.5, longitude = - 87.6, CrimeCount = 62, ViolentCount = 17\<rparr>]"

definition battery_a :: incident where
  "battery_a = \<lparr>latitude = 41.9, longitude = - 87.6, date = Some \<lparr>hour = 0, dayofweek = 6\<rparr>,
      primary_type = Some ''BATTERY'', Hour = Some 0, DayOfWeek = Some 6, IsViolent = 1\<rparr>"

definition theft_a :: incident where
  "theft_a = \<lparr>latitude = 41.9, longitude = - 87.6, date = Some \<lparr>hour = 0, dayofweek = 6\<rparr>,
      primary_type = Some ''THEFT'', Hour = Some 0, DayOfWeek = Some 6, IsViolent = 0\<rparr>"

definition theft_b :: incident where
  "theft_b = \<lparr>latitude = 41.8, longitude = - 87.7, date = Some \<lparr>hour = 0, dayofweek = 6\<rparr>,
      primary_type = Some ''THEFT'', Hour = Some 0, DayOfWeek = Some 6, IsViolent = 0\<rparr>"

definition raw_theft_b :: raw_record where
  "raw_theft_b = [''date'' \<mapsto> ''2024-09-01T00:00:00.000'', ''latitude'' \<mapsto> ''41.8'',
                  ''longitude'' \<mapsto> ''-87.7'', ''primary_type'' \<mapsto> ''THEFT'']"

definition raw_bad_latitude :: raw_record where
  "raw_bad_latitude = [''date'' \<mapsto> ''2024-09-01T00:00:00.000'', ''latitude'' \<mapsto> ''n/a'',
                  ''longitude'' \<mapsto> ''-87.5'', ''primary_type'' \<mapsto> ''THEFT'']"

definition raw_battery_a :: raw_record where
  "raw_battery_a = [''date'' \<mapsto> ''2024-09-01T00:00:00.000'', ''latitude'' \<mapsto> ''41.9'',
                  ''longitude'' \<mapsto> ''-87.6'', ''primary_type'' \<mapsto> ''BATTERY'']"


definition small_sample :: dataframe where
  "small_sample =
     \<lparr>df_index = [0..<5],
      df_cols = [''latitude'' \<mapsto> [Some 41.1, Some 41.2, Some 41.3, Some 41.4, Some 41.5],
                 ''longitude'' \<mapsto> [Some (- 87.6), Some (- 87.6), Some (- 87.6), Some (- 87.6), Some (- 87.6)],
                 ''CrimeCount'' \<mapsto> [Some 1, Some 1, Some 62, Some 1, Some 1],
                 ''ViolentCount'' \<mapsto> [Some 0, Some 0, Some 17, Some 1, Some 0],
                 ''Risk'' \<mapsto> [Some 0, None, Some 1, Some 0, Some 0]]\<rparr>"

section \<open>Properties of the Feature Engine\<close>

lemma freplace_0_1_nonzero: "freplace 0 1 x \<noteq> Some 0"
  by (simp add: freplace_def)

lemma engineer_body_raises:
  "snd (engineer_body df) =
     (if getitem df ''latitude'' = None \<or> getitem df ''longitude'' = None
         \<or> getitem df ''CrimeCount'' = None \<or> getitem df ''ViolentCount'' = None
      then Some KeyError else None)"
  by (auto simp: engineer_body_def with_col_def getitem_def setitem_def Let_def split: option.splits)

lemma engineer_body_success:
  assumes "getitem df ''latitude'' = Some lat" "getitem df ''longitude'' = Some lon"
    "getitem df ''CrimeCount'' = Some cc" "getitem df ''ViolentCount'' = Some vc"
  shows "engineer_body df =
     (df\<lparr>df_cols := (df_cols df)
        (''CrimeDensity'' \<mapsto> sfillna 0 (sdiv cc (sreplace 0 1 (sabs (smul lat lon)))),
         ''ViolentRatio'' \<mapsto> sfillna 0 (sdiv vc (sreplace 0 1 cc)),
         ''DistanceFromCenter'' \<mapsto>
            ssqrt (sadd (spow2 (ssub_scalar (sfillna city_center_lat lat) city_center_lat))
                        (spow2 (ssub_scalar (sfillna city_center_lon lon) city_center_lon))))\<rparr>, None)"
  using assms
  by (simp add: engineer_body_def with_col_def getitem_def setitem_def Let_def)

lemma engineer_body_idem: "engineer_body (fst (engineer_body df)) = engineer_body df"
  by (auto simp: engineer_body_def with_col_def getitem_def setitem_def Let_def fun_upd_twist
      split: option.splits)

lemma engineer_body_noneD:
  assumes "engineer_body df = (df', None)"
  obtains lat lon cc vc where "getitem df ''latitude'' = Some lat" "getitem df ''longitude'' = Some lon"
    "getitem df ''CrimeCount'' = Some cc" "getitem df ''ViolentCount'' = Some vc"
proof -
  have "snd (engineer_body df) = None" using assms by simp
  then show ?thesis using that
    by (auto simp: engineer_body_raises split: if_splits)
qed

lemma density_cell:
  assumes wf: "wf_frame df" and ok: "engineer_body df = (df', None)" and i: "i < length (df_index df)"
    and lat: "getitem df ''latitude'' = Some lat" and lon: "getitem df ''longitude'' = Some lon"
    and cc: "getitem df ''CrimeCount'' = Some cc"
  shows "cell_at df' ''CrimeDensity'' i =
           Some (ffillna 0 (fdiv (cc ! i) (freplace 0 1 (fabs (fmul (lat ! i) (lon ! i))))))"
proof -
  obtain vc where vc: "getitem df ''ViolentCount'' = Some vc"
    using ok by (rule engineer_body_noneD) (auto simp: lat lon cc)
  have len: "length lat = length (df_index df)" "length lon = length (df_index df)"
    "length cc = length (df_index df)"
    using wf lat lon cc by (auto simp: wf_frame_def getitem_def)
  have "df' = fst (engineer_body df)" using ok by simp
  then show ?thesis
    using i len
    by (simp add: engineer_body_success [OF lat lon cc vc] cell_at_def sfillna_def sdiv_def
        sreplace_def sabs_def smul_def)
qed

lemma ratio_cell:
  assumes wf: "wf_frame df" and ok: "engineer_body df = (df', None)" and i: "i < length (df_index df)"
    and cc: "getitem df ''CrimeCount'' = Some cc" and vc: "getitem df ''ViolentCount'' = Some vc"
  shows "cell_at df' ''ViolentRatio'' i = Some (ffillna 0 (fdiv (vc ! i) (freplace 0 1 (cc ! i))))"
proof -
  obtain lat lon where lat: "getitem df ''latitude'' = Some lat" and lon: "getitem df ''longitude'' = Some lon"
    using ok by (rule engineer_body_noneD) auto
  have len: "length vc = length (df_index df)" "length cc = length (df_index df)"
    using wf vc cc by (auto simp: wf_frame_def getitem_def)
  have "df' = fst (engineer_body df)" using ok by simp
  then show ?thesis
    using i len
    by (simp add: engineer_body_success [OF lat lon cc vc] cell_at_def sfillna_def sdiv_def
        sreplace_def)
qed

lemma distance_cell:
  assumes wf: "wf_frame df" and ok: "engineer_body df = (df', None)" and i: "i < length (df_index df)"
    and lat: "getitem df ''latitude'' = Some lat" and lon: "getitem df ''longitude'' = Some lon"
  shows "cell_at df' ''DistanceFromCenter'' i =
           Some (fsqrt (fadd (fpow2 (fsub_scalar (ffillna city_center_lat (lat ! i)) city_center_lat))
                             (fpow2 (fsub_scalar (ffillna city_center_lon (lon ! i)) city_center_lon))))"
proof -
  obtain cc vc where cc: "getitem df ''CrimeCount'' = Some cc" and vc: "getitem df ''ViolentCount'' = Some vc"
    using ok by (rule engineer_body_noneD) auto
  have len: "length lat = length (df_index df)" "length lon = length (df_index df)"
    using wf lat lon by (auto simp: wf_frame_def getitem_def)
  have "df' = fst (engineer_body df)" using ok by simp
  then show ?thesis
    using i len
    by (simp add: engineer_body_success [OF lat lon cc vc] cell_at_def ssqrt_def sadd_def
        spow2_def ssub_scalar_def sfillna_def)
qed

lemma engineer_body_wf:
  assumes wf: "wf_frame df" and ok: "engineer_body df = (df', None)"
  shows "wf_frame df'"
proof -
  from ok obtain lat lon cc vc where cols: "getitem df ''latitude'' = Some lat"
    "getitem df ''longitude'' = Some lon" "getitem df ''CrimeCount'' = Some cc"
    "getitem df ''ViolentCount'' = Some vc"
    by (rule engineer_body_noneD)
  have len: "length lat = length (df_index df)" "length lon = length (df_index df)"
    "length cc = length (df_index df)" "length vc = length (df_index df)"
    using wf cols by (auto simp: wf_frame_def getitem_def)
  have eq: "df' = fst (engineer_body df)" using ok by simp
  show ?thesis
    unfolding wf_frame_def
  proof (intro allI impI)
    fix c s
    assume s: "df_cols df' c = Some s"
    show "length s = length (df_index df')"
    proof (cases "c \<in> {''CrimeDensity'', ''ViolentRatio'', ''DistanceFromCenter''}")
      case True
      then show ?thesis
        using s len
        by (auto simp: eq engineer_body_success [OF cols] sfillna_def sdiv_def sreplace_def
            sabs_def smul_def ssqrt_def sadd_def spow2_def ssub_scalar_def)
    next
      case False
      then have "df_cols df c = Some s"
        using s by (simp add: eq engineer_body_success [OF cols])
      then show ?thesis
        using wf by (simp add: eq engineer_body_success [OF cols] wf_frame_def)
    qed
  qed
qed

lemma density_zero_count: "ffillna 0 (fdiv (Some 0) (freplace 0 1 d)) = Some 0"
  by (cases d) (auto simp: ffillna_def freplace_def)

lemma density_zero_product:
  "la * lo = 0 \<Longrightarrow> ffillna 0 (fdiv c (freplace 0 1 (fabs (fmul (Some la) (Some lo))))) = ffillna 0 c"
  by (cases c) (auto simp: ffillna_def freplace_def fabs_def)

lemma ratio_zero_count: "ffillna 0 (fdiv v (freplace 0 1 (Some 0))) = ffillna 0 v"
  by (cases v) (auto simp: ffillna_def freplace_def)

lemma wf_frame_of:
  "length lon = length lat \<Longrightarrow> length cc = length lat \<Longrightarrow> length vc = length lat
     \<Longrightarrow> wf_frame (frame_of lat lon cc vc)"
  by (auto simp: wf_frame_def frame_of_def split: if_splits)

lemma engineer_features_InrD:
  assumes "engineer_features df h = (Inr r, h')"
  shows "r = df \<and> engineer_body (objs h df) = (objs h' df, None)
       \<and> h' = h\<lparr>objs := (objs h)(df := objs h' df)\<rparr>"
  using assms
  by (auto simp: engineer_features_def split: prod.splits option.splits)

lemma sample_frame_wf: "wf_frame sample_frame"
  unfolding sample_frame_def by (rule wf_frame_of) simp_all

lemma sample_frame_cols:
  "getitem sample_frame ''latitude'' = Some [Some 0, Some 41.9, Some 41.8781, Some 41.8781]"
  "getitem sample_frame ''longitude'' = Some [Some (- 87.6298), Some (- 87.7), Some (- 87.6298), Some (- 87.6298)]"
  "getitem sample_frame ''CrimeCount'' = Some [Some 3, Some 2, Some 0, Some 0]"
  "getitem sample_frame ''ViolentCount'' = Some [Some 1, Some 1, Some 0, Some 0]"
  by (simp_all add: sample_frame_def frame_of_def getitem_def)

lemma sample_frame_cells:
  "cell_at sample_frame ''latitude'' 0 = Some (Some 0)"
  "cell_at sample_frame ''longitude'' 0 = Some (Some (- 87.6298))"
  "cell_at sample_frame ''CrimeCount'' 0 = Some (Some 3)"
  "cell_at sample_frame ''ViolentCount'' 0 = Some (Some 1)"
  "cell_at sample_frame ''latitude'' 2 = Some (Some 41.8781)"
  "cell_at sample_frame ''longitude'' 2 = Some (Some (- 87.6298))"
  "cell_at sample_frame ''CrimeCount'' 2 = Some (Some 0)"
  "cell_at sample_frame ''CrimeCount'' 3 = Some (Some 0)"
  "cell_at sample_frame ''ViolentCount'' 2 = Some (Some 0)"
  "cell_at sample_frame ''ViolentCount'' 3 = Some (Some 0)"
  by (simp_all add: sample_frame_def frame_of_def cell_at_def)

lemma sample_frame_length: "length (df_index sample_frame) = 4"
  by (simp add: sample_frame_def frame_of_def)

lemma sample_frame_returns:
  assumes "objs h df = sample_frame"
  shows "engineer_features df h = (Inr df, h\<lparr>objs := (objs h)(df := fst (engineer_body sample_frame))\<rparr>)"
  by (simp add: engineer_features_def assms engineer_body_success [OF sample_frame_cols])

lemma sample_frame_engineered:
  "df_cols (fst (engineer_body sample_frame)) ''CrimeDensity'' = Some [Some 3, Some (2 / \<bar>41.9 * - 87.7\<bar>), Some 0, Some 0]"
  "df_cols (fst (engineer_body sample_frame)) ''ViolentRatio'' = Some [Some (1 / 3), Some (1 / 2), Some 0, Some 0]"
  by (simp_all add: engineer_body_success [OF sample_frame_cols] sfillna_def sdiv_def sreplace_def
      sabs_def smul_def ffillna_def freplace_def fabs_def)

text \<open>
  C2, as the code has it. For a row whose \<open>CrimeCount\<close> is 0 the computed \<open>CrimeDensity\<close> is 0.
  For a row whose product \<open>latitude * longitude\<close> is 0 the divisor is replaced by 1, so the
  computed \<open>CrimeDensity\<close> is the row's \<open>CrimeCount\<close> (0 if that is missing): a number, never
  NaN, but 0 only when \<open>CrimeCount\<close> is.
\<close>

theorem crime_density_degenerate:
  assumes "wf_frame (objs h df)" and "engineer_features df h = (Inr r, h')"
    and "i < length (df_index (objs h df))"
  shows "(cell_at (objs h df) ''CrimeCount'' i = Some (Some 0)
            \<longrightarrow> cell_at (objs h' r) ''CrimeDensity'' i = Some (Some 0))
       \<and> (\<forall>la lo. cell_at (objs h df) ''latitude'' i = Some (Some la)
              \<and> cell_at (objs h df) ''longitude'' i = Some (Some lo) \<and> la * lo = 0
            \<longrightarrow> cell_at (objs h' r) ''CrimeDensity'' i
                  = map_option (ffillna 0) (cell_at (objs h df) ''CrimeCount'' i))"
proof -
  from assms(2) have r: "r = df" and body: "engineer_body (objs h df) = (objs h' df, None)"
    using engineer_features_InrD by blast+
  from body obtain lat lon cc vc where cols: "getitem (objs h df) ''latitude'' = Some lat"
    "getitem (objs h df) ''longitude'' = Some lon" "getitem (objs h df) ''CrimeCount'' = Some cc"
    "getitem (objs h df) ''ViolentCount'' = Some vc"
    by (rule engineer_body_noneD)
  have len: "i < length lat" "i < length lon" "i < length cc"
    using assms(1,3) cols by (auto simp: wf_frame_def getitem_def)
  have at: "cell_at (objs h df) ''latitude'' i = Some (lat ! i)"
    "cell_at (objs h df) ''longitude'' i = Some (lon ! i)"
    "cell_at (objs h df) ''CrimeCount'' i = Some (cc ! i)"
    using cols len by (simp_all add: cell_at_def getitem_def)
  have d: "cell_at (objs h' r) ''CrimeDensity'' i =
           Some (ffillna 0 (fdiv (cc ! i) (freplace 0 1 (fabs (fmul (lat ! i) (lon ! i))))))"
    unfolding r by (rule density_cell [OF assms(1) body assms(3) cols(1,2,3)])
  show ?thesis
  proof (intro conjI allI impI)
    assume "cell_at (objs h df) ''CrimeCount'' i = Some (Some 0)"
    then have "cc ! i = Some 0" using at by simp
    then show "cell_at (objs h' r) ''CrimeDensity'' i = Some (Some 0)"
      by (simp only: d density_zero_count)
  next
    fix la lo
    assume a: "cell_at (objs h df) ''latitude'' i = Some (Some la)
              \<and> cell_at (objs h df) ''longitude'' i = Some (Some lo) \<and> la * lo = 0"
    then have "lat ! i = Some la" "lon ! i = Some lo" and z: "la * lo = 0"
      using at by simp_all
    then show "cell_at (objs h' r) ''CrimeDensity'' i
                 = map_option (ffillna 0) (cell_at (objs h df) ''CrimeCount'' i)"
      by (simp only: d at density_zero_product [OF z] option.map)
  qed
qed

text \<open>Row 0 of the sample has latitude 0, hence a zero product, and \<open>CrimeCount\<close> 3: its
  \<open>CrimeDensity\<close> is 3, not 0.\<close>

theorem zero_product_density_counterexample:
  "fst (engineer_features 0 (heap_of sample_frame)) = Inr 0
   \<and> cell_at sample_frame ''latitude'' 0 = Some (Some 0)
   \<and> cell_at (objs (snd (engineer_features 0 (heap_of sample_frame))) 0) ''CrimeDensity'' 0 = Some (Some 3)"
proof -
  have o: "objs (heap_of sample_frame) 0 = sample_frame" by (simp add: heap_of_def)
  have "cell_at (fst (engineer_body sample_frame)) ''CrimeDensity'' 0 = Some (Some 3)"
    by (simp add: cell_at_def sample_frame_engineered)
  then show ?thesis
    by (simp add: sample_frame_returns [OF o] sample_frame_cells)
qed

theorem crime_density_degenerate_witness:
  "cell_at (objs (snd (engineer_features 0 (heap_of sample_frame))) 0) ''CrimeDensity'' 2 = Some (Some 0)
   \<and> cell_at (objs (snd (engineer_features 0 (heap_of sample_frame))) 0) ''CrimeDensity'' 0 = Some (Some 3)"
proof -
  let ?h = "heap_of sample_frame"
  have o: "objs ?h 0 = sample_frame" by (simp add: heap_of_def)
  have wf: "wf_frame (objs ?h 0)" by (simp add: o sample_frame_wf)
  obtain h' where run: "engineer_features 0 ?h = (Inr 0, h')"
    using sample_frame_returns [OF o] by blast
  have i0: "0 < length (df_index (objs ?h 0))" and i2: "2 < length (df_index (objs ?h 0))"
    by (simp_all add: o sample_frame_length)
  have c2: "cell_at (objs ?h 0) ''CrimeCount'' 2 = Some (Some 0)"
    by (simp add: o sample_frame_cells)
  have p0: "cell_at (objs ?h 0) ''latitude'' 0 = Some (Some 0)
          \<and> cell_at (objs ?h 0) ''longitude'' 0 = Some (Some (- 87.6298)) \<and> (0::real) * (- 87.6298) = 0"
    by (simp add: o sample_frame_cells)
  have a: "cell_at (objs h' 0) ''CrimeDensity'' 2 = Some (Some 0)"
    using crime_density_degenerate [OF wf run i2] c2 by blast
  have "cell_at (objs h' 0) ''CrimeDensity'' 0 = map_option (ffillna 0) (cell_at (objs ?h 0) ''CrimeCount'' 0)"
    using crime_density_degenerate [OF wf run i0] p0 by blast
  then have b: "cell_at (objs h' 0) ''CrimeDensity'' 0 = Some (Some 3)"
    by (simp add: o sample_frame_cells ffillna_def)
  show ?thesis using a b by (simp add: run)
qed

text \<open>Whatever the \<open>ViolentCount\<close> of a row whose \<open>CrimeCount\<close> is 0: the divisor is replaced by
  1, so the computed \<open>ViolentRatio\<close> is the row's \<open>ViolentCount\<close> (0 if that is missing).\<close>

lemma violent_ratio_replaced_divisor:
  assumes "wf_frame (objs h df)" and "engineer_features df h = (Inr r, h')"
    and "i < length (df_index (objs h df))"
    and "cell_at (objs h df) ''CrimeCount'' i = Some (Some 0)"
  shows "cell_at (objs h' r) ''ViolentRatio'' i
           = map_option (ffillna 0) (cell_at (objs h df) ''ViolentCount'' i)"
proof -
  from assms(2) have r: "r = df" and body: "engineer_body (objs h df) = (objs h' df, None)"
    using engineer_features_InrD by blast+
  from body obtain lat lon cc vc where cols: "getitem (objs h df) ''latitude'' = Some lat"
    "getitem (objs h df) ''longitude'' = Some lon" "getitem (objs h df) ''CrimeCount'' = Some cc"
    "getitem (objs h df) ''ViolentCount'' = Some vc"
    by (rule engineer_body_noneD)
  have len: "i < length cc" "i < length vc"
    using assms(1,3) cols by (auto simp: wf_frame_def getitem_def)
  have at: "cell_at (objs h df) ''ViolentCount'' i = Some (vc ! i)"
    "cell_at (objs h df) ''CrimeCount'' i = Some (cc ! i)"
    using cols len by (simp_all add: cell_at_def getitem_def)
  have v: "cell_at (objs h' r) ''ViolentRatio'' i = Some (ffillna 0 (fdiv (vc ! i) (freplace 0 1 (cc ! i))))"
    unfolding r by (rule ratio_cell [OF assms(1) body assms(3) cols(3,4)])
  from assms(4) at have c0: "cc ! i = Some 0" by simp
  show ?thesis
    by (simp only: v at c0 ratio_zero_count option.map)
qed

lemma counts_consistent_zero:
  assumes "counts_consistent df i" and "cell_at df ''CrimeCount'' i = Some (Some 0)"
  shows "cell_at df ''ViolentCount'' i = Some (Some 0)"
  using assms
  by (auto simp: counts_consistent_def split: option.splits)

text \<open>
  C6. The rows the Feature Engine processes are location aggregates, whose \<open>ViolentCount\<close>
  is between 0 and their \<open>CrimeCount\<close> (\<open>counts_consistent\<close>; lemma
  \<open>transformed_frame_consistent\<close> shows it of every row that the ETL hands over). For such a
  row, if its \<open>CrimeCount\<close> is 0 then the computed \<open>ViolentRatio\<close> is 0.
\<close>

theorem violent_ratio_zero_count:
  assumes "wf_frame (objs h df)" and "engineer_features df h = (Inr r, h')"
    and "i < length (df_index (objs h df))"
    and "counts_consistent (objs h df) i"
    and "cell_at (objs h df) ''CrimeCount'' i = Some (Some 0)"
  shows "cell_at (objs h' r) ''ViolentRatio'' i = Some (Some 0)"
proof -
  have "cell_at (objs h df) ''ViolentCount'' i = Some (Some 0)"
    using assms(4,5) by (rule counts_consistent_zero)
  moreover have "ffillna 0 (Some 0) = Some 0" by (simp add: ffillna_def)
  ultimately show ?thesis
    by (simp only: violent_ratio_replaced_divisor [OF assms(1,2,3,5)] option.map)
qed

theorem violent_ratio_zero_count_witness:
  "counts_consistent sample_frame 2
   \<and> cell_at sample_frame ''CrimeCount'' 2 = Some (Some 0)
   \<and> cell_at (objs (snd (engineer_features 0 (heap_of sample_frame))) 0) ''ViolentRatio'' 2 = Some (Some 0)"
proof -
  let ?h = "heap_of sample_frame"
  have o: "objs ?h 0 = sample_frame" by (simp add: heap_of_def)
  have wf: "wf_frame (objs ?h 0)" by (simp add: o sample_frame_wf)
  obtain h' where run: "engineer_features 0 ?h = (Inr 0, h')"
    using sample_frame_returns [OF o] by blast
  have i2: "2 < length (df_index (objs ?h 0))"
    by (simp add: o sample_frame_length)
  have c2: "cell_at (objs ?h 0) ''CrimeCount'' 2 = Some (Some 0)"
    by (simp add: o sample_frame_cells)
  have k2: "counts_consistent (objs ?h 0) 2"
    by (simp add: o counts_consistent_def sample_frame_cells)
  have a: "cell_at (objs h' 0) ''ViolentRatio'' 2 = Some (Some 0)"
    by (rule violent_ratio_zero_count [OF wf run i2 k2 c2])
  show ?thesis using a c2 k2 by (simp add: run o)
qed

text \<open>
  C5. Applying \<open>engineer_features\<close> to the result of \<open>engineer_features\<close> gives what one
  application gives: the same returned object (or the same exception) and the same heap, so
  the second application changes no field of the frame the first one left.
\<close>

theorem engineer_features_idempotent: "engineer_twice df h = engineer_features df h"
proof -
  obtain frame e where b: "engineer_body (objs h df) = (frame, e)"
    by (cases "engineer_body (objs h df)")
  have "engineer_body frame = (frame, e)"
    using engineer_body_idem [of "objs h df"] b by simp
  then show ?thesis
    using b by (cases e) (simp_all add: engineer_twice_def engineer_features_def)
qed

theorem engineer_features_idempotent_witness:
  "engineer_twice 0 (heap_of sample_frame) = engineer_features 0 (heap_of sample_frame)"
  by (rule engineer_features_idempotent)

text \<open>
  C10. A call of \<open>engineer_features\<close> that returns gives back the reference it was given; it
  changes no other object and allocates none; in the object itself the index is unchanged,
  the set of columns grows by exactly \<open>CrimeDensity\<close>, \<open>ViolentRatio\<close> and \<open>DistanceFromCenter\<close>,
  and every other column, among them \<open>latitude\<close>, \<open>longitude\<close>, \<open>CrimeCount\<close> and
  \<open>ViolentCount\<close>, is what it was. When the argument is a fresh copy of an object \<open>X\<close>, as at
  the call sites, \<open>X\<close> is left as it was. A frame with one cell per row in every column is
  still one after the call, and each of its rows has its four input cells and, in the three
  new columns, the values computed from them: \<open>CrimeCount / |latitude * longitude|\<close> and
  \<open>ViolentCount / CrimeCount\<close> with a zero divisor replaced by 1 and NaN by 0, and the distance
  of the coordinates (a missing one taken as the centre's) from the city centre.
\<close>

theorem engineer_features_frame:
  assumes "engineer_features df h = (Inr r, h')"
  shows "r = df
       \<and> next_ref h' = next_ref h
       \<and> (\<forall>p. p \<noteq> df \<longrightarrow> objs h' p = objs h p)
       \<and> df_index (objs h' df) = df_index (objs h df)
       \<and> dom (df_cols (objs h' df)) = dom (df_cols (objs h df)) \<union> new_columns
       \<and> (\<forall>c. c \<notin> new_columns \<longrightarrow> df_cols (objs h' df) c = df_cols (objs h df) c)
       \<and> {''latitude'', ''longitude'', ''CrimeCount'', ''ViolentCount''}
            \<subseteq> dom (df_cols (objs h df)) - new_columns
       \<and> (\<forall>X h0. X < next_ref h0 \<and> copy X h0 = (df, h) \<longrightarrow> objs h' X = objs h0 X)
       \<and> (wf_frame (objs h df) \<longrightarrow> wf_frame (objs h' df))
       \<and> (\<forall>i. wf_frame (objs h df) \<and> i < length (df_index (objs h df)) \<longrightarrow>
            (\<exists>lat lon cc vc.
               cell_at (objs h df) ''latitude'' i = Some lat
             \<and> cell_at (objs h df) ''longitude'' i = Some lon
             \<and> cell_at (objs h df) ''CrimeCount'' i = Some cc
             \<and> cell_at (objs h df) ''ViolentCount'' i = Some vc
             \<and> cell_at (objs h' df) ''latitude'' i = Some lat
             \<and> cell_at (objs h' df) ''longitude'' i = Some lon
             \<and> cell_at (objs h' df) ''CrimeCount'' i = Some cc
             \<and> cell_at (objs h' df) ''ViolentCount'' i = Some vc
             \<and> cell_at (objs h' df) ''CrimeDensity'' i
                 = Some (ffillna 0 (fdiv cc (freplace 0 1 (fabs (fmul lat lon)))))
             \<and> cell_at (objs h' df) ''ViolentRatio'' i
                 = Some (ffillna 0 (fdiv vc (freplace 0 1 cc)))
             \<and> cell_at (objs h' df) ''DistanceFromCenter'' i
                 = Some (fsqrt (fadd
                     (fpow2 (fsub_scalar (ffillna city_center_lat lat) city_center_lat))
                     (fpow2 (fsub_scalar (ffillna city_center_lon lon) city_center_lon))))))"
proof -
  from assms have r: "r = df" and body: "engineer_body (objs h df) = (objs h' df, None)"
    and h': "h' = h\<lparr>objs := (objs h)(df := objs h' df)\<rparr>"
    using engineer_features_InrD by blast+
  from body obtain lat lon cc vc where cols: "getitem (objs h df) ''latitude'' = Some lat"
    "getitem (objs h df) ''longitude'' = Some lon" "getitem (objs h df) ''CrimeCount'' = Some cc"
    "getitem (objs h df) ''ViolentCount'' = Some vc"
    by (rule engineer_body_noneD)
  have eq: "objs h' df = fst (engineer_body (objs h df))" using body by simp
  have a: "next_ref h' = next_ref h" by (subst h') simp
  have b: "\<forall>p. p \<noteq> df \<longrightarrow> objs h' p = objs h p" by (subst h') simp
  have c: "df_index (objs h' df) = df_index (objs h df)"
    by (simp add: eq engineer_body_success [OF cols])
  have d: "dom (df_cols (objs h' df)) = dom (df_cols (objs h df)) \<union> new_columns"
    by (auto simp: eq engineer_body_success [OF cols] new_columns_def)
  have e: "\<forall>c. c \<notin> new_columns \<longrightarrow> df_cols (objs h' df) c = df_cols (objs h df) c"
    by (simp add: eq engineer_body_success [OF cols] new_columns_def)
  have f: "{''latitude'', ''longitude'', ''CrimeCount'', ''ViolentCount''}
             \<subseteq> dom (df_cols (objs h df)) - new_columns"
    using cols by (auto simp: getitem_def new_columns_def)
  have g: "\<forall>X h0. X < next_ref h0 \<and> copy X h0 = (df, h) \<longrightarrow> objs h' X = objs h0 X"
  proof (intro allI impI)
    fix X h0
    assume x: "X < next_ref h0 \<and> copy X h0 = (df, h)"
    then have "X \<noteq> df" and "objs h X = objs h0 X"
      by (auto simp: copy_def)
    then show "objs h' X = objs h0 X" using b by simp
  qed
  have w: "wf_frame (objs h df) \<longrightarrow> wf_frame (objs h' df)"
    using engineer_body_wf [OF _ body] by blast
  have k: "\<forall>i. wf_frame (objs h df) \<and> i < length (df_index (objs h df)) \<longrightarrow>
            (\<exists>lat lon cc vc.
               cell_at (objs h df) ''latitude'' i = Some lat
             \<and> cell_at (objs h df) ''longitude'' i = Some lon
             \<and> cell_at (objs h df) ''CrimeCount'' i = Some cc
             \<and> cell_at (objs h df) ''ViolentCount'' i = Some vc
             \<and> cell_at (objs h' df) ''latitude'' i = Some lat
             \<and> cell_at (objs h' df) ''longitude'' i = Some lon
             \<and> cell_at (objs h' df) ''CrimeCount'' i = Some cc
             \<and> cell_at (objs h' df) ''ViolentCount'' i = Some vc
             \<and> cell_at (objs h' df) ''CrimeDensity'' i
                 = Some (ffillna 0 (fdiv cc (freplace 0 1 (fabs (fmul lat lon)))))
             \<and> cell_at (objs h' df) ''ViolentRatio'' i
                 = Some (ffillna 0 (fdiv vc (freplace 0 1 cc)))
             \<and> cell_at (objs h' df) ''DistanceFromCenter'' i
                 = Some (fsqrt (fadd
                     (fpow2 (fsub_scalar (ffillna city_center_lat lat) city_center_lat))
                     (fpow2 (fsub_scalar (ffillna city_center_lon lon) city_center_lon)))))"
  proof (intro allI impI)
    fix i
    assume p: "wf_frame (objs h df) \<and> i < length (df_index (objs h df))"
    then have wf: "wf_frame (objs h df)" and i: "i < length (df_index (objs h df))"
      by simp_all
    have len: "i < length lat" "i < length lon" "i < length cc" "i < length vc"
      using wf i cols by (auto simp: wf_frame_def getitem_def)
    have at: "cell_at (objs h df) ''latitude'' i = Some (lat ! i)"
      "cell_at (objs h df) ''longitude'' i = Some (lon ! i)"
      "cell_at (objs h df) ''CrimeCount'' i = Some (cc ! i)"
      "cell_at (objs h df) ''ViolentCount'' i = Some (vc ! i)"
      using cols len by (simp_all add: cell_at_def getitem_def)
    have nc: "''latitude'' \<notin> new_columns" "''longitude'' \<notin> new_columns"
      "''CrimeCount'' \<notin> new_columns" "''ViolentCount'' \<notin> new_columns"
      by (simp_all add: new_columns_def)
    have at': "cell_at (objs h' df) ''latitude'' i = Some (lat ! i)"
      "cell_at (objs h' df) ''longitude'' i = Some (lon ! i)"
      "cell_at (objs h' df) ''CrimeCount'' i = Some (cc ! i)"
      "cell_at (objs h' df) ''ViolentCount'' i = Some (vc ! i)"
      using at e nc by (simp_all add: cell_at_def)
    note density_cell [OF wf body i cols(1,2,3)] ratio_cell [OF wf body i cols(3,4)]
      distance_cell [OF wf body i cols(1,2)]
    with at at' show "\<exists>lat lon cc vc.
               cell_at (objs h df) ''latitude'' i = Some lat
             \<and> cell_at (objs h df) ''longitude'' i = Some lon
             \<and> cell_at (objs h df) ''CrimeCount'' i = Some cc
             \<and> cell_at (objs h df) ''ViolentCount'' i = Some vc
             \<and> cell_at (objs h' df) ''latitude'' i = Some lat
             \<and> cell_at (objs h' df) ''longitude'' i = Some lon
             \<and> cell_at (objs h' df) ''CrimeCount'' i = Some cc
             \<and> cell_at (objs h' df) ''ViolentCount'' i = Some vc
             \<and> cell_at (objs h' df) ''CrimeDensity'' i
                 = Some (ffillna 0 (fdiv cc (freplace 0 1 (fabs (fmul lat lon)))))
             \<and> cell_at (objs h' df) ''ViolentRatio'' i
                 = Some (ffillna 0 (fdiv vc (freplace 0 1 cc)))
             \<and> cell_at (objs h' df) ''DistanceFromCenter'' i
                 = Some (fsqrt (fadd
                     (fpow2 (fsub_scalar (ffillna city_center_lat lat) city_center_lat))
                     (fpow2 (fsub_scalar (ffillna city_center_lon lon) city_center_lon))))"
      by (intro exI [of _ "lat ! i"] exI [of _ "lon ! i"] exI [of _ "cc ! i"] exI [of _ "vc ! i"])
         (simp only: simp_thms)
  qed
  show ?thesis
    by (intro conjI r a b c d e f g w k)
qed

theorem engineer_features_frame_witness:
  "fst (engineer_copy 0 (heap_of sample_frame)) = Inr 1
   \<and> objs (snd (engineer_copy 0 (heap_of sample_frame))) 0 = sample_frame
   \<and> dom (df_cols (objs (snd (engineer_copy 0 (heap_of sample_frame))) 1))
       = dom (df_cols sample_frame) \<union> new_columns
   \<and> df_cols (objs (snd (engineer_copy 0 (heap_of sample_frame))) 1) ''CrimeCount''
       = df_cols sample_frame ''CrimeCount''
   \<and> wf_frame (objs (snd (engineer_copy 0 (heap_of sample_frame))) 1)
   \<and> cell_at (objs (snd (engineer_copy 0 (heap_of sample_frame))) 1) ''CrimeDensity'' 0 = Some (Some 3)
   \<and> cell_at (objs (snd (engineer_copy 0 (heap_of sample_frame))) 1) ''ViolentRatio'' 0 = Some (Some (1 / 3))
   \<and> cell_at (objs (snd (engineer_copy 0 (heap_of sample_frame))) 1) ''DistanceFromCenter'' 2 = Some (Some 0)"
proof -
  let ?h0 = "heap_of sample_frame"
  obtain h where cp: "copy 0 ?h0 = (1, h)" by (simp add: copy_def heap_of_def)
  then have o: "objs h 1 = sample_frame" by (auto simp: copy_def heap_of_def)
  obtain h' where run: "engineer_features 1 h = (Inr 1, h')"
    using sample_frame_returns [OF o] by blast
  have ec: "engineer_copy 0 ?h0 = (Inr 1, h')"
    by (simp only: engineer_copy_def cp run prod.case)
  have "0 < next_ref ?h0" by (simp add: heap_of_def)
  then have lt: "0 < next_ref ?h0 \<and> copy 0 ?h0 = (1, h)" using cp by (rule conjI)
  have nc: "''CrimeCount'' \<notin> new_columns" by (simp add: new_columns_def)
  have o0: "objs ?h0 0 = sample_frame" by (simp add: heap_of_def)
  have wf: "wf_frame (objs h 1)" unfolding o by (rule sample_frame_wf)
  note F = engineer_features_frame [OF run]
  have d: "dom (df_cols (objs h' 1)) = dom (df_cols (objs h 1)) \<union> new_columns"
    by (rule F [THEN conjunct2, THEN conjunct2, THEN conjunct2, THEN conjunct2, THEN conjunct1])
  have e: "\<forall>c. c \<notin> new_columns \<longrightarrow> df_cols (objs h' 1) c = df_cols (objs h 1) c"
    by (rule F [THEN conjunct2, THEN conjunct2, THEN conjunct2, THEN conjunct2, THEN conjunct2,
          THEN conjunct1])
  have g: "\<forall>X h0. X < next_ref h0 \<and> copy X h0 = (1, h) \<longrightarrow> objs h' X = objs h0 X"
    by (rule F [THEN conjunct2, THEN conjunct2, THEN conjunct2, THEN conjunct2, THEN conjunct2,
          THEN conjunct2, THEN conjunct2, THEN conjunct1])
  have w: "wf_frame (objs h 1) \<longrightarrow> wf_frame (objs h' 1)"
    by (rule F [THEN conjunct2, THEN conjunct2, THEN conjunct2, THEN conjunct2, THEN conjunct2,
          THEN conjunct2, THEN conjunct2, THEN conjunct2, THEN conjunct1])
  note K = F [THEN conjunct2, THEN conjunct2, THEN conjunct2, THEN conjunct2, THEN conjunct2,
          THEN conjunct2, THEN conjunct2, THEN conjunct2, THEN conjunct2, rule_format]
  have c: "df_cols (objs h' 1) ''CrimeCount'' = df_cols (objs h 1) ''CrimeCount''"
    using e [rule_format, OF nc] .
  have x: "objs h' 0 = objs ?h0 0"
    using g [rule_format, OF lt] .
  have w': "wf_frame (objs h' 1)"
    using w wf by (rule mp)
  have i0: "wf_frame (objs h 1) \<and> 0 < length (df_index (objs h 1))"
    and i2: "wf_frame (objs h 1) \<and> 2 < length (df_index (objs h 1))"
    unfolding o using sample_frame_wf by (simp_all add: sample_frame_length)
  from K [OF i0, unfolded o] obtain lat lon cc vc where
    "cell_at sample_frame ''latitude'' 0 = Some lat" "cell_at sample_frame ''longitude'' 0 = Some lon"
    "cell_at sample_frame ''CrimeCount'' 0 = Some cc" "cell_at sample_frame ''ViolentCount'' 0 = Some vc"
    and cd: "cell_at (objs h' 1) ''CrimeDensity'' 0
                 = Some (ffillna 0 (fdiv cc (freplace 0 1 (fabs (fmul lat lon)))))"
    and vr: "cell_at (objs h' 1) ''ViolentRatio'' 0 = Some (ffillna 0 (fdiv vc (freplace 0 1 cc)))"
    by blast
  then have v0: "lat = Some 0" "lon = Some (- 87.6298)" "cc = Some 3" "vc = Some 1"
    by (simp_all add: sample_frame_cells)
  have cd0: "cell_at (objs h' 1) ''CrimeDensity'' 0 = Some (Some 3)"
    unfolding cd v0 by (simp add: ffillna_def freplace_def fabs_def)
  have vr0: "cell_at (objs h' 1) ''ViolentRatio'' 0 = Some (Some (1 / 3))"
    unfolding vr v0 by (simp add: ffillna_def freplace_def)
  from K [OF i2, unfolded o] obtain lat2 lon2 where
    "cell_at sample_frame ''latitude'' 2 = Some lat2" "cell_at sample_frame ''longitude'' 2 = Some lon2"
    and dc: "cell_at (objs h' 1) ''DistanceFromCenter'' 2
                 = Some (fsqrt (fadd
                     (fpow2 (fsub_scalar (ffillna city_center_lat lat2) city_center_lat))
                     (fpow2 (fsub_scalar (ffillna city_center_lon lon2) city_center_lon))))"
    by blast
  then have v2: "lat2 = Some 41.8781" "lon2 = Some (- 87.6298)"
    by (simp_all add: sample_frame_cells)
  have dc2: "cell_at (objs h' 1) ''DistanceFromCenter'' 2 = Some (Some 0)"
    unfolding dc v2 by (simp add: ffillna_def fsub_scalar_def fpow2_def fsqrt_def city_center_lat_def
        city_center_lon_def)
  show ?thesis
    by (simp only: ec fst_conv snd_conv d c x o o0 w' cd0 vr0 dc2 simp_thms)
qed

section \<open>Properties of the ETL\<close>

lemma filter_length_mset:
  assumes "mset xs = mset ys"
  shows "length (filter P xs) = length (filter P ys)"
proof -
  have "mset (filter P xs) = mset (filter P ys)"
    using assms by (simp only: mset_filter)
  then show ?thesis by (rule mset_eq_length)
qed

lemma sorted_below_le:
  fixes s :: "int list"
  assumes "sorted s" and "k < length s" and "m \<le> real_of_int (s ! k)"
  shows "length (filter (\<lambda>x. real_of_int x < m) s) \<le> k"
proof -
  have "\<forall>x \<in> set (drop k s). \<not> real_of_int x < m"
  proof
    fix x assume "x \<in> set (drop k s)"
    then obtain j where "j < length (drop k s)" "x = drop k s ! j"
      by (auto simp: in_set_conv_nth)
    then have "x = s ! (k + j)" "k + j < length s" using assms(2) by auto
    then have "s ! k \<le> x" using assms(1) by (simp add: sorted_nth_mono)
    then show "\<not> real_of_int x < m" using assms(3) by linarith
  qed
  then have "filter (\<lambda>x. real_of_int x < m) (drop k s) = []" by (simp add: filter_empty_conv)
  moreover have "filter (\<lambda>x. real_of_int x < m) s
      = filter (\<lambda>x. real_of_int x < m) (take k s) @ filter (\<lambda>x. real_of_int x < m) (drop k s)"
    by (metis append_take_drop_id filter_append)
  ultimately have "length (filter (\<lambda>x. real_of_int x < m) s) = length (filter (\<lambda>x. real_of_int x < m) (take k s))"
    by simp
  also have "\<dots> \<le> length (take k s)" by (rule length_filter_le)
  also have "\<dots> \<le> k" by simp
  finally show ?thesis .
qed

lemma sorted_above_le:
  fixes s :: "int list"
  assumes "sorted s" and "k < length s" and "real_of_int (s ! k) \<le> m"
  shows "length (filter (\<lambda>x. m < real_of_int x) s) \<le> length s - Suc k"
proof -
  have "\<forall>x \<in> set (take (Suc k) s). \<not> m < real_of_int x"
  proof
    fix x assume "x \<in> set (take (Suc k) s)"
    then obtain j where "j < length (take (Suc k) s)" "x = take (Suc k) s ! j"
      by (auto simp: in_set_conv_nth)
    then have "x = s ! j" "j \<le> k" using assms(2) by auto
    then have "x \<le> s ! k" using assms(1,2) by (simp add: sorted_nth_mono)
    then show "\<not> m < real_of_int x" using assms(3) by linarith
  qed
  then have "filter (\<lambda>x. m < real_of_int x) (take (Suc k) s) = []" by (simp add: filter_empty_conv)
  moreover have "filter (\<lambda>x. m < real_of_int x) s
      = filter (\<lambda>x. m < real_of_int x) (take (Suc k) s) @ filter (\<lambda>x. m < real_of_int x) (drop (Suc k) s)"
    by (metis append_take_drop_id filter_append)
  ultimately have "length (filter (\<lambda>x. m < real_of_int x) s) = length (filter (\<lambda>x. m < real_of_int x) (drop (Suc k) s))"
    by simp
  also have "\<dots> \<le> length (drop (Suc k) s)" by (rule length_filter_le)
  also have "\<dots> = length s - Suc k" by simp
  finally show ?thesis .
qed

lemma median_is_median:
  assumes "xs \<noteq> []"
  shows "\<exists>m. median xs = Some m \<and> is_median m xs"
proof -
  define s where "s = sort xs"
  define n where "n = length s"
  have srt: "sorted s" and len: "length xs = n" and ms: "mset s = mset xs"
    by (simp_all add: s_def n_def)
  have npos: "0 < n" using assms len by auto
  have below: "length (filter (\<lambda>x. real_of_int x < m) xs) = length (filter (\<lambda>x. real_of_int x < m) s)" for m
    by (rule filter_length_mset) (simp add: ms)
  have above: "length (filter (\<lambda>x. m < real_of_int x) xs) = length (filter (\<lambda>x. m < real_of_int x) s)" for m
    by (rule filter_length_mset) (simp add: ms)
  show ?thesis
  proof (cases "odd n")
    case True
    define k where "k = n div 2"
    have k: "k < n" "n = 2 * k + 1" using True npos by (auto simp: k_def elim: oddE)
    have m: "median xs = Some (real_of_int (s ! k))"
      using assms True by (simp add: median_def Let_def s_def [symmetric] n_def [symmetric] k_def)
    have b: "length (filter (\<lambda>x. real_of_int x < real_of_int (s ! k)) s) \<le> k"
      by (rule sorted_below_le [OF srt]) (use k n_def in auto)
    have a: "length (filter (\<lambda>x. real_of_int (s ! k) < real_of_int x) s) \<le> length s - Suc k"
      by (rule sorted_above_le [OF srt]) (use k n_def in auto)
    have "is_median (real_of_int (s ! k)) xs"
      unfolding is_median_def below above len using a b k n_def by linarith
    then show ?thesis using m by blast
  next
    case False
    define k where "k = n div 2"
    have k: "0 < k" "k < n" "n = 2 * k" using False npos by (auto simp: k_def elim: evenE)
    define m where "m = (real_of_int (s ! (k - 1)) + real_of_int (s ! k)) / 2"
    have md: "median xs = Some m"
      using assms False by (simp add: median_def Let_def s_def [symmetric] n_def [symmetric] k_def m_def)
    have "s ! (k - 1) \<le> s ! k"
      using srt k n_def by (simp add: sorted_nth_mono)
    then have lo: "real_of_int (s ! (k - 1)) \<le> m" and hi: "m \<le> real_of_int (s ! k)"
      by (simp_all add: m_def field_simps)
    have b: "length (filter (\<lambda>x. real_of_int x < m) s) \<le> k"
      by (rule sorted_below_le [OF srt _ hi]) (use k n_def in auto)
    have a: "length (filter (\<lambda>x. m < real_of_int x) s) \<le> length s - Suc (k - 1)"
      by (rule sorted_above_le [OF srt _ lo]) (use k n_def in auto)
    have "is_median m xs"
      unfolding is_median_def below above len using a b k n_def by linarith
    then show ?thesis using md by blast
  qed
qed

lemma label_risk_length: "length (label_risk lc) = length lc"
  by (simp add: label_risk_def Let_def)

lemma label_risk_nth:
  "i < length lc \<Longrightarrow> label_risk lc ! i =
     \<lparr>latitude = latitude (lc ! i), longitude = longitude (lc ! i),
      CrimeCount = CrimeCount (lc ! i), ViolentCount = ViolentCount (lc ! i),
      Risk = (if gt_cell (real_of_int (CrimeCount (lc ! i))) (median (map CrimeCount lc)) then 1 else 0)\<rparr>"
  by (simp add: label_risk_def Let_def)

text \<open>
  C1. For a non-empty list of location aggregates the median of \<open>CrimeCount\<close> over all rows
  is a number \<open>m\<close>, and it is a median of these counts; the labeler keeps every row and gives
  a row \<open>Risk = 1\<close> exactly when its \<open>CrimeCount\<close> is strictly above \<open>m\<close> and \<open>Risk = 0\<close> otherwise,
  in particular when its \<open>CrimeCount\<close> equals \<open>m\<close>.
\<close>

theorem risk_above_median:
  assumes "lc \<noteq> []"
  shows "\<exists>m. median (map CrimeCount lc) = Some m \<and> is_median m (map CrimeCount lc)
           \<and> length (label_risk lc) = length lc
           \<and> (\<forall>i<length lc.
                 (Risk (label_risk lc ! i) = 1 \<longleftrightarrow> m < real_of_int (CrimeCount (lc ! i)))
               \<and> (Risk (label_risk lc ! i) = 0 \<longleftrightarrow> real_of_int (CrimeCount (lc ! i)) \<le> m)
               \<and> (real_of_int (CrimeCount (lc ! i)) = m \<longrightarrow> Risk (label_risk lc ! i) = 0)
               \<and> CrimeCount (label_risk lc ! i) = CrimeCount (lc ! i))"
proof -
  from assms have "map CrimeCount lc \<noteq> []" by simp
  then obtain m where m: "median (map CrimeCount lc) = Some m" "is_median m (map CrimeCount lc)"
    using median_is_median by blast
  have "\<forall>i<length lc.
                 (Risk (label_risk lc ! i) = 1 \<longleftrightarrow> m < real_of_int (CrimeCount (lc ! i)))
               \<and> (Risk (label_risk lc ! i) = 0 \<longleftrightarrow> real_of_int (CrimeCount (lc ! i)) \<le> m)
               \<and> (real_of_int (CrimeCount (lc ! i)) = m \<longrightarrow> Risk (label_risk lc ! i) = 0)
               \<and> CrimeCount (label_risk lc ! i) = CrimeCount (lc ! i)"
    by (auto simp: label_risk_nth m gt_cell_def)
  then show ?thesis using m label_risk_length by blast
qed

theorem risk_above_median_witness:
  "median (map CrimeCount sample_counts) = Some 1
   \<and> Risk (label_risk sample_counts ! 0) = 0 \<and> Risk (label_risk sample_counts ! 4) = 1"
proof -
  have ne: "sample_counts \<noteq> []" by (simp add: sample_counts_def)
  have m1: "median (map CrimeCount sample_counts) = Some 1"
    by (simp add: sample_counts_def median_def)
  from risk_above_median [OF ne] obtain m where
    m: "median (map CrimeCount sample_counts) = Some m" and
    r: "\<forall>i<length sample_counts.
          (Risk (label_risk sample_counts ! i) = 1 \<longleftrightarrow> m < real_of_int (CrimeCount (sample_counts ! i)))
        \<and> (Risk (label_risk sample_counts ! i) = 0 \<longleftrightarrow> real_of_int (CrimeCount (sample_counts ! i)) \<le> m)
        \<and> (real_of_int (CrimeCount (sample_counts ! i)) = m \<longrightarrow> Risk (label_risk sample_counts ! i) = 0)
        \<and> CrimeCount (label_risk sample_counts ! i) = CrimeCount (sample_counts ! i)"
    by blast
  from m m1 have "m = 1" by simp
  moreover have "length sample_counts = 5" "CrimeCount (sample_counts ! 0) = 1"
    "CrimeCount (sample_counts ! 4) = 62"
    by (simp_all add: sample_counts_def)
  ultimately have "Risk (label_risk sample_counts ! 0) = 0" "Risk (label_risk sample_counts ! 4) = 1"
    using r by simp_all
  then show ?thesis using m1 by simp
qed

text \<open>
  C8 at the empty input. \<open>from_records\<close> of an empty list of records is a frame without
  columns, and selecting the four columns from it raises KeyError: the cleaning cell does
  not produce an empty output.
\<close>

theorem clean_empty_raises: "clean parse_float parse_date [] = Inl KeyError"
  by (simp add: clean_def columns_def has_column_def)

lemma dropna_coords:
  "map (\<lambda>row. (fst row, fst (snd row))) (dropna rows)
     = map (\<lambda>row. (the (fst row), the (fst (snd row))))
         (filter (\<lambda>row. fst row \<noteq> None \<and> fst (snd row) \<noteq> None) rows)"
  by (induction rows rule: dropna.induct) auto

lemma dropna_records:
  "map (\<lambda>row. snd (snd row)) (dropna rows)
     = map (\<lambda>row. snd (snd row)) (filter (\<lambda>row. fst row \<noteq> None \<and> fst (snd row) \<noteq> None) rows)"
  by (induction rows rule: dropna.induct) auto

lemma dropna_parsed:
  "(la, lo, r) \<in> set (dropna rows) \<Longrightarrow> (Some la, Some lo, r) \<in> set rows"
  by (induction rows rule: dropna.induct) auto

lemma clean_normalized:
  assumes "clean parse_float parse_date results = Inr df"
  shows "\<forall>r \<in> set df. normalized r"
  using assms
  by (auto simp: clean_def Let_def normalized_def extract_features_def split: if_splits)

lemma clean_drops_unparsed:
  assumes "clean parse_float parse_date results = Inr df"
  shows "map location_key df
          = map (\<lambda>r. (the (to_numeric parse_float (r ''latitude'')), the (to_numeric parse_float (r ''longitude''))))
              (filter (\<lambda>r. to_numeric parse_float (r ''latitude'') \<noteq> None
                          \<and> to_numeric parse_float (r ''longitude'') \<noteq> None) results)"
proof -
  let ?rows = "map (\<lambda>r. (to_numeric parse_float (r ''latitude''), to_numeric parse_float (r ''longitude''), r)) results"
  from assms have df: "df = map (extract_features parse_date) (dropna ?rows)"
    by (auto simp: clean_def Let_def split: if_splits)
  have "map location_key df = map (\<lambda>row. (fst row, fst (snd row))) (dropna ?rows)"
    by (simp add: df location_key_def extract_features_def Let_def split_def)
  also have "\<dots> = map (\<lambda>row. (the (fst row), the (fst (snd row))))
         (filter (\<lambda>row. fst row \<noteq> None \<and> fst (snd row) \<noteq> None) ?rows)"
    by (rule dropna_coords)
  also have "\<dots> = map (\<lambda>r. (the (to_numeric parse_float (r ''latitude'')), the (to_numeric parse_float (r ''longitude''))))
              (filter (\<lambda>r. to_numeric parse_float (r ''latitude'') \<noteq> None
                          \<and> to_numeric parse_float (r ''longitude'') \<noteq> None) results)"
    by (simp add: filter_map comp_def)
  finally show ?thesis .
qed

lemma remdups_const:
  assumes "xs \<noteq> []" and "\<forall>x \<in> set xs. x = k"
  shows "remdups xs = [k]"
  using assms
proof (induction xs)
  case Nil
  then show ?case by simp
next
  case (Cons a xs)
  show ?case
  proof (cases "xs = []")
    case True
    with Cons.prems show ?thesis by simp
  next
    case False
    with Cons have "remdups xs = [k]" by simp
    moreover have "a = k" "a \<in> set xs" using Cons.prems False by (auto simp: neq_Nil_conv)
    ultimately show ?thesis by simp
  qed
qed

lemma location_counts_single:
  assumes "df \<noteq> []" and "\<forall>r \<in> set df. latitude r = la \<and> longitude r = lo"
  shows "location_counts df =
           [\<lparr>latitude = la, longitude = lo,
             CrimeCount = int (length (filter (\<lambda>r. primary_type r \<noteq> None) df)),
             ViolentCount = sum_list (map IsViolent df)\<rparr>]"
proof -
  have "remdups (map location_key df) = [(la, lo)]"
    by (rule remdups_const) (use assms in \<open>auto simp: location_key_def\<close>)
  moreover have "filter (\<lambda>r. location_key r = (la, lo)) df = df"
    using assms(2) by (simp add: location_key_def filter_id_conv)
  ultimately show ?thesis
    by (simp only: location_counts_def Let_def sort_key_simps insort_key.simps list.map fst_conv snd_conv)
qed

lemma median_single: "median [c] = Some (real_of_int c)"
  by (simp add: median_def)

text \<open>
  C7. When all incidents of a non-empty input are at one location, the aggregation has one
  row, the median is that row's own \<open>CrimeCount\<close>, and every labelled row has \<open>Risk = 0\<close>.
\<close>

theorem single_location_low_risk:
  assumes "df \<noteq> []" and "\<forall>r \<in> set df. latitude r = la \<and> longitude r = lo"
  shows "\<exists>a. location_counts df = [a]
           \<and> median (map CrimeCount (location_counts df)) = Some (real_of_int (CrimeCount a))
           \<and> (\<forall>row \<in> set (label_risk (location_counts df)). Risk row = 0)
           \<and> length (label_risk (location_counts df)) = 1"
  by (simp add: location_counts_single [OF assms] median_single label_risk_def gt_cell_def)

theorem single_location_low_risk_witness:
  "map CrimeCount (location_counts [battery_a, theft_a]) = [2]
   \<and> map Risk (label_risk (location_counts [battery_a, theft_a])) = [0]"
proof -
  have ne: "[battery_a, theft_a] \<noteq> []" by simp
  have same: "\<forall>r \<in> set [battery_a, theft_a]. latitude r = 41.9 \<and> longitude r = - 87.6"
    by (simp add: battery_a_def theft_a_def)
  from single_location_low_risk [OF ne same] obtain a where
    a: "location_counts [battery_a, theft_a] = [a]"
    and r: "\<forall>row \<in> set (label_risk (location_counts [battery_a, theft_a])). Risk row = 0"
    and l: "length (label_risk (location_counts [battery_a, theft_a])) = 1"
    by blast
  from l obtain x where x: "label_risk (location_counts [battery_a, theft_a]) = [x]"
    by (cases "label_risk (location_counts [battery_a, theft_a])") auto
  have "CrimeCount a = 2"
    using a unfolding location_counts_single [OF ne same]
    by (auto simp: battery_a_def theft_a_def)
  then show ?thesis using a r x by simp
qed

lemma sample_normalized:
  "normalized battery_a" "normalized theft_a" "normalized theft_b"
  by (simp_all add: normalized_def battery_a_def theft_a_def theft_b_def isin_def violent_crimes_def)

lemma clean_sample:
  assumes "parse_float ''41.8'' = Some 41.8" "parse_float ''-87.7'' = Some (- 87.7)"
    "parse_float ''41.9'' = Some 41.9" "parse_float ''-87.6'' = Some (- 87.6)"
    "parse_float ''n/a'' = None"
    "parse_date ''2024-09-01T00:00:00.000'' = Some \<lparr>hour = 0, dayofweek = 6\<rparr>"
  shows "clean parse_float parse_date [raw_theft_b, raw_bad_latitude, raw_battery_a]
           = Inr [theft_b, battery_a]"
  using assms
  by (simp add: clean_def columns_def has_column_def raw_theft_b_def raw_bad_latitude_def
      raw_battery_a_def to_numeric_def bad_date_def extract_features_def Let_def
      theft_b_def battery_a_def isin_def violent_crimes_def)

lemma violent_le_count:
  assumes "\<forall>r \<in> set g. normalized r"
  shows "0 \<le> sum_list (map IsViolent g)
       \<and> sum_list (map IsViolent g) \<le> int (length (filter (\<lambda>r. primary_type r \<noteq> None) g))"
  using assms
proof (induction g)
  case Nil
  then show ?case by simp
next
  case (Cons r g)
  then have ih: "0 \<le> sum_list (map IsViolent g)"
    "sum_list (map IsViolent g) \<le> int (length (filter (\<lambda>r. primary_type r \<noteq> None) g))"
    by simp_all
  have "normalized r" using Cons.prems by simp
  then have "0 \<le> IsViolent r" "IsViolent r \<le> (if primary_type r \<noteq> None then 1 else 0)"
    by (auto simp: normalized_def isin_def split: option.splits)
  then show ?case using ih by (auto split: if_splits)
qed

text \<open>\<open>CrimeCount=("primary_type", "count")\<close> counts the values of \<open>primary_type\<close> in the group,
  \<open>ViolentCount=("IsViolent", "sum")\<close> adds the indicators: for the rows of the cleaning cell
  the sum is between 0 and the count, and the count is at least 1 exactly when some incident
  of the location has a \<open>primary_type\<close>.\<close>

lemma location_counts_bounds:
  assumes "\<forall>r \<in> set df. normalized r" and "a \<in> set (location_counts df)"
  shows "0 \<le> ViolentCount a \<and> ViolentCount a \<le> CrimeCount a
       \<and> (1 \<le> CrimeCount a \<longleftrightarrow>
            (\<exists>r \<in> set df. location_key r = (latitude a, longitude a) \<and> primary_type r \<noteq> None))"
proof -
  from assms(2) obtain k where k: "k \<in> set (map location_key df)"
    and a: "a = \<lparr>latitude = fst k, longitude = snd k,
             CrimeCount = int (length (filter (\<lambda>r. primary_type r \<noteq> None) (filter (\<lambda>r. location_key r = k) df))),
             ViolentCount = sum_list (map IsViolent (filter (\<lambda>r. location_key r = k) df))\<rparr>"
    by (auto simp: location_counts_def Let_def)
  let ?g = "filter (\<lambda>r. location_key r = k) df"
  have "\<forall>r \<in> set ?g. normalized r" using assms(1) by simp
  then have v: "0 \<le> sum_list (map IsViolent ?g)"
    "sum_list (map IsViolent ?g) \<le> int (length (filter (\<lambda>r. primary_type r \<noteq> None) ?g))"
    using violent_le_count by blast+
  have c: "1 \<le> CrimeCount a \<longleftrightarrow> (\<exists>r \<in> set df. location_key r = (latitude a, longitude a) \<and> primary_type r \<noteq> None)"
  proof -
    have "1 \<le> CrimeCount a \<longleftrightarrow> filter (\<lambda>r. primary_type r \<noteq> None) ?g \<noteq> []"
      by (simp add: a Suc_le_eq)
    also have "\<dots> \<longleftrightarrow> (\<exists>r \<in> set df. location_key r = k \<and> primary_type r \<noteq> None)"
      by (auto simp: filter_empty_conv)
    finally show ?thesis by (simp add: a)
  qed
  show ?thesis using v c by (simp add: a)
qed

lemma location_counts_located:
  assumes "a \<in> set (location_counts df)"
  shows "\<exists>r \<in> set df. location_key r = (latitude a, longitude a)"
  using assms
  by (auto simp: location_counts_def Let_def)

text \<open>
  C9. The incidents are the rows of the cleaning cell, each with its \<open>primary_type\<close> (the
  category of an incident is a string). Every aggregate row of the aggregation cell then
  has \<open>CrimeCount \<ge> 1\<close> and \<open>0 \<le> ViolentCount \<le> CrimeCount\<close>.
\<close>

theorem aggregate_counts:
  assumes "\<forall>r \<in> set df. normalized r" and "\<forall>r \<in> set df. primary_type r \<noteq> None"
    and "a \<in> set (location_counts df)"
  shows "1 \<le> CrimeCount a \<and> 0 \<le> ViolentCount a \<and> ViolentCount a \<le> CrimeCount a"
proof -
  from assms(3) obtain r where "r \<in> set df" "location_key r = (latitude a, longitude a)"
    using location_counts_located by blast
  then have "\<exists>r \<in> set df. location_key r = (latitude a, longitude a) \<and> primary_type r \<noteq> None"
    using assms(2) by blast
  then show ?thesis
    using location_counts_bounds [OF assms(1,3)] by blast
qed

theorem aggregate_counts_witness:
  "map CrimeCount (location_counts [battery_a, theft_b, theft_a]) = [1, 2]
   \<and> map ViolentCount (location_counts [battery_a, theft_b, theft_a]) = [0, 1]
   \<and> list_all (\<lambda>a. 1 \<le> CrimeCount a \<and> 0 \<le> ViolentCount a \<and> ViolentCount a \<le> CrimeCount a)
        (location_counts [battery_a, theft_b, theft_a])"
proof -
  let ?df = "[battery_a, theft_b, theft_a]"
  have n: "\<forall>r \<in> set ?df. normalized r" by (simp add: sample_normalized)
  have c: "\<forall>r \<in> set ?df. primary_type r \<noteq> None"
    by (simp add: battery_a_def theft_a_def theft_b_def)
  have "1 \<le> CrimeCount a \<and> 0 \<le> ViolentCount a \<and> ViolentCount a \<le> CrimeCount a"
    if "a \<in> set (location_counts ?df)" for a
    using aggregate_counts [OF n c that] .
  then have "list_all (\<lambda>a. 1 \<le> CrimeCount a \<and> 0 \<le> ViolentCount a \<and> ViolentCount a \<le> CrimeCount a)
        (location_counts ?df)"
    by (simp add: list_all_iff)
  moreover have "map CrimeCount (location_counts ?df) = [1, 2]"
    "map ViolentCount (location_counts ?df) = [0, 1]"
    by (simp_all add: location_counts_def location_key_def battery_a_def theft_a_def theft_b_def
        Let_def less_eq_prod_def)
  ultimately show ?thesis by simp
qed

subsection \<open>The rows handed to the Feature Engine\<close>

lemma transformed_frame_wf: "wf_frame (transformed_frame rows)"
  by (auto simp: wf_frame_def transformed_frame_def split: if_splits)

lemma transformed_frame_cells:
  assumes "i < length rows"
  shows "cell_at (transformed_frame rows) ''CrimeCount'' i = Some (Some (real_of_int (CrimeCount (rows ! i))))"
    and "cell_at (transformed_frame rows) ''ViolentCount'' i = Some (Some (real_of_int (ViolentCount (rows ! i))))"
  using assms by (simp_all add: cell_at_def transformed_frame_def)

text \<open>Every row that the ETL writes and the feature notebook reads has its \<open>ViolentCount\<close>
  between 0 and its \<open>CrimeCount\<close>.\<close>

lemma transformed_frame_consistent:
  assumes n: "\<forall>r \<in> set df. normalized r" and i: "i < length (location_counts df)"
  shows "counts_consistent (transformed_frame (label_risk (location_counts df))) i"
proof -
  let ?lc = "location_counts df"
  have "?lc ! i \<in> set ?lc" using i by simp
  then have b: "0 \<le> ViolentCount (?lc ! i)" "ViolentCount (?lc ! i) \<le> CrimeCount (?lc ! i)"
    using location_counts_bounds [OF n] by blast+
  have l: "i < length (label_risk ?lc)" using i by (simp add: label_risk_length)
  have r: "CrimeCount (label_risk ?lc ! i) = CrimeCount (?lc ! i)"
    "ViolentCount (label_risk ?lc ! i) = ViolentCount (?lc ! i)"
    using i by (simp_all add: label_risk_nth)
  show ?thesis
    using b by (simp add: counts_consistent_def transformed_frame_cells [OF l] r)
qed

text \<open>The feature notebook drops \<open>Risk\<close> and selects rows by position before it calls
  \<open>engineer_features\<close>; the counts of a row stay what they were.\<close>

lemma counts_consistent_drop_column:
  assumes "drop_column df ''Risk'' = Inr X"
  shows "counts_consistent X i = counts_consistent df i"
proof -
  from assms have X: "X = df\<lparr>df_cols := (df_cols df)(''Risk'' := None)\<rparr>"
    by (simp add: drop_column_def split: if_splits)
  have "cell_at X ''CrimeCount'' i = cell_at df ''CrimeCount'' i"
    "cell_at X ''ViolentCount'' i = cell_at df ''ViolentCount'' i"
    by (simp_all add: X cell_at_def)
  then show ?thesis by (simp add: counts_consistent_def)
qed

lemma counts_consistent_take_rows:
  assumes "wf_frame df" and "i < length ps" and "ps ! i < length (df_index df)"
  shows "counts_consistent (take_rows df ps) i = counts_consistent df (ps ! i)"
proof -
  have "cell_at (take_rows df ps) c i = cell_at df c (ps ! i)" for c
    using assms by (auto simp: cell_at_def take_rows_def wf_frame_def split: option.splits)
  then show ?thesis by (simp add: counts_consistent_def)
qed

section \<open>Properties of the split\<close>

subsection \<open>The draws per class\<close>

lemma length_add_at: "length (add_at inds fl) = length fl"
  by (simp add: add_at_def)

lemma nth_add_at:
  "i < length fl \<Longrightarrow> add_at inds fl ! i = (if i \<in> set inds then fl ! i + 1 else fl ! i)"
  by (simp add: add_at_def)

lemma sum_list_if_plus_one:
  "sum_list (map (\<lambda>i. if P i then f i + 1 else f i) xs)
     = sum_list (map f xs) + int (length (filter P xs))"
  for f :: "nat \<Rightarrow> int"
  by (induction xs) auto

lemma length_filter_mem_upt:
  assumes "distinct inds" and "set inds \<subseteq> {..<n}"
  shows "length (filter (\<lambda>i. i \<in> set inds) [0..<n]) = length inds"
proof -
  have "card (set (filter (\<lambda>i. i \<in> set inds) [0..<n])) = length (filter (\<lambda>i. i \<in> set inds) [0..<n])"
    by (rule distinct_card) simp
  then have "length (filter (\<lambda>i. i \<in> set inds) [0..<n]) = card (set (filter (\<lambda>i. i \<in> set inds) [0..<n]))"
    by simp
  also have "set (filter (\<lambda>i. i \<in> set inds) [0..<n]) = set inds"
    using assms(2) by auto
  also have "card (set inds) = length inds"
    using assms(1) by (rule distinct_card)
  finally show ?thesis .
qed

lemma sum_list_add_at:
  assumes "distinct inds" and "set inds \<subseteq> {..<length fl}"
  shows "sum_list (add_at inds fl) = sum_list fl + int (length inds)"
proof -
  have "sum_list (add_at inds fl)
          = sum_list (map (\<lambda>i. fl ! i) [0..<length fl])
            + int (length (filter (\<lambda>i. i \<in> set inds) [0..<length fl]))"
    unfolding add_at_def by (rule sum_list_if_plus_one)
  then show ?thesis
    by (simp add: map_nth length_filter_mem_upt [OF assms])
qed

lemma where_eq_props:
  "distinct (where_eq rem v)" "set (where_eq rem v) = {i. i < length rem \<and> rem ! i = v}"
  by (auto simp: where_eq_def)

lemma cntpos_Cons:
  assumes "v \<notin> set vs" and "v \<noteq> 0"
  shows "cntpos rem (v # vs) = length (where_eq rem v) + cntpos rem vs"
proof -
  have "filter (\<lambda>i. rem ! i \<in> set (v # vs) \<and> rem ! i \<noteq> 0) [0..<length rem]
          = filter (\<lambda>i. rem ! i = v \<or> (rem ! i \<in> set vs \<and> rem ! i \<noteq> 0)) [0..<length rem]"
    using assms by (intro filter_cong) auto
  moreover have "length (filter (\<lambda>i. P i \<or> Q i) xs) = length (filter P xs) + length (filter Q xs)"
    if "\<forall>i \<in> set xs. \<not> (P i \<and> Q i)" for P Q and xs :: "nat list"
    using that by (induction xs) auto
  ultimately show ?thesis
    using assms by (auto simp: cntpos_def where_eq_def)
qed

lemma cntpos_zero_head:
  assumes "\<forall>x \<in> set rem. 0 \<le> x" and "\<forall>x \<in> set vs. x < 0"
  shows "cntpos rem (0 # vs) = 0"
proof -
  have "\<not> (rem ! i \<in> set (0 # vs) \<and> rem ! i \<noteq> 0)" if "i < length rem" for i
  proof -
    have "0 \<le> rem ! i" using assms(1) that by simp
    then show ?thesis using assms(2) by fastforce
  qed
  then show ?thesis by (simp add: cntpos_def filter_empty_conv)
qed

lemma add_by_remainder_props:
  assumes ok: "numpy_random_ok R"
    and nonneg: "\<forall>x \<in> set rem. 0 \<le> x"
  shows "length fl = length rem \<Longrightarrow> sorted_wrt (\<lambda>a b. b < a) vs \<Longrightarrow> need \<le> cntpos rem vs
     \<Longrightarrow> add_by_remainder R vs rem fl need g = (fl', g')
     \<Longrightarrow> length fl' = length fl \<and> sum_list fl' = sum_list fl + int need
         \<and> (\<forall>i<length fl. fl' ! i = fl ! i
                \<or> (fl' ! i = fl ! i + 1 \<and> rem ! i \<noteq> 0 \<and> rem ! i \<in> set vs))"
proof (induction vs arbitrary: fl need g)
  case Nil
  then show ?case by (simp add: cntpos_def)
next
  case (Cons v vs)
  let ?inds = "where_eq rem v"
  let ?add_now = "min (length ?inds) need"
  obtain chosen g1 where ch: "rng_choice R ?inds ?add_now g = (chosen, g1)"
    by (cases "rng_choice R ?inds ?add_now g")
  have "distinct ?inds" "?add_now \<le> length ?inds" by (simp_all add: where_eq_props)
  then have c: "length chosen = ?add_now" "distinct chosen" "set chosen \<subseteq> set ?inds"
    using ok ch unfolding numpy_random_ok_def by (metis fst_conv)+
  have crange: "set chosen \<subseteq> {..<length fl}"
    using c(3) Cons.prems(1) by (auto simp: where_eq_props)
  let ?fl1 = "add_at chosen fl"
  have l1: "length ?fl1 = length fl" by (simp add: length_add_at)
  have s1: "sum_list ?fl1 = sum_list fl + int ?add_now"
    using sum_list_add_at [OF c(2) crange] c(1) by simp
  have vs_lt: "\<forall>x \<in> set vs. x < v" and srt: "sorted_wrt (\<lambda>a b. b < a) vs"
    using Cons.prems(2) by auto
  have res: "(if need - ?add_now = 0 then (?fl1, g1)
              else add_by_remainder R vs rem ?fl1 (need - ?add_now) g1) = (fl', g')"
    using Cons.prems(4) by (simp add: Let_def ch)
  show ?case
  proof (cases "v = 0")
    case True
    then have "cntpos rem (v # vs) = 0"
      using cntpos_zero_head [OF nonneg] vs_lt by simp
    then have n0: "need = 0" using Cons.prems(3) by simp
    then have "chosen = []" using c(1) by simp
    then have "fl' = ?fl1" "\<forall>i<length fl. ?fl1 ! i = fl ! i"
      using res n0 by (auto simp: nth_add_at)
    then show ?thesis using l1 s1 n0 by simp
  next
    case False
    have ch_rem: "\<forall>i \<in> set chosen. rem ! i = v"
      using c(3) by (auto simp: where_eq_props)
    have step: "\<forall>i<length fl. ?fl1 ! i = fl ! i \<or> (?fl1 ! i = fl ! i + 1 \<and> rem ! i = v)"
      using ch_rem by (auto simp: nth_add_at)
    show ?thesis
    proof (cases "need - ?add_now = 0")
      case True
      then have "fl' = ?fl1" and "?add_now = need" using res by auto
      then show ?thesis using l1 s1 step False by auto
    next
      case ne: False
      then have an: "?add_now = length ?inds" by auto
      have r: "add_by_remainder R vs rem ?fl1 (need - ?add_now) g1 = (fl', g')"
        using res ne by simp
      have "v \<notin> set vs" using vs_lt by auto
      then have "cntpos rem (v # vs) = length ?inds + cntpos rem vs"
        using False by (rule cntpos_Cons)
      then have nd: "need - ?add_now \<le> cntpos rem vs"
        using Cons.prems(3) an by simp
      have l1': "length ?fl1 = length rem" using l1 Cons.prems(1) by simp
      note IH = Cons.IH [OF l1' srt nd r]
      have a: "length fl' = length fl" using IH l1 by simp
      have b: "sum_list fl' = sum_list fl + int need"
        using IH s1 ne by auto
      have d: "\<forall>i<length fl. fl' ! i = fl ! i
                 \<or> (fl' ! i = fl ! i + 1 \<and> rem ! i \<noteq> 0 \<and> rem ! i \<in> set (v # vs))"
      proof (intro allI impI)
        fix i assume i: "i < length fl"
        then have i1: "i < length ?fl1" using l1 by simp
        from IH i1 have ih: "fl' ! i = ?fl1 ! i
            \<or> (fl' ! i = ?fl1 ! i + 1 \<and> rem ! i \<noteq> 0 \<and> rem ! i \<in> set vs)"
          by blast
        from step i have st: "?fl1 ! i = fl ! i \<or> (?fl1 ! i = fl ! i + 1 \<and> rem ! i = v)"
          by blast
        show "fl' ! i = fl ! i
               \<or> (fl' ! i = fl ! i + 1 \<and> rem ! i \<noteq> 0 \<and> rem ! i \<in> set (v # vs))"
          using ih st False \<open>v \<notin> set vs\<close> by auto
      qed
      show ?thesis using a b d by blast
    qed
  qed
qed


lemma sum_list_scaled:
  "sum_list (map (\<lambda>c. real_of_int c / N * d) cs) = real_of_int (sum_list cs) / N * d"
  by (induction cs) (simp_all add: add_divide_distrib ring_distribs)

lemma sum_list_le_count:
  fixes xs :: "real list"
  assumes "\<forall>x \<in> set xs. 0 \<le> x \<and> x < 1"
  shows "sum_list xs \<le> real (length (filter (\<lambda>x. x \<noteq> 0) xs))"
  using assms by (induction xs) auto

lemma cntpos_all:
  assumes "set rem \<subseteq> set vs"
  shows "cntpos rem vs = length (filter (\<lambda>x. x \<noteq> 0) rem)"
proof -
  have "filter (\<lambda>i. rem ! i \<in> set vs \<and> rem ! i \<noteq> 0) [0..<length rem]
          = filter (\<lambda>i. rem ! i \<noteq> 0) [0..<length rem]"
    using assms by (intro filter_cong) auto
  moreover have "length (filter (\<lambda>i. rem ! i \<noteq> 0) [0..<length rem])
          = length (filter (\<lambda>x. x \<noteq> 0) (map (\<lambda>i. rem ! i) [0..<length rem]))"
    by (simp add: filter_map comp_def)
  ultimately show ?thesis by (simp add: cntpos_def map_nth)
qed


lemma approximate_mode_props:
  assumes ok: "numpy_random_ok R"
    and nonneg: "\<forall>c \<in> set cs. 0 \<le> c"
    and pos: "0 < sum_list cs"
    and le: "int d \<le> sum_list cs"
    and res: "approximate_mode R cs d g = (m, g')"
  shows "length m = length cs \<and> sum_list m = int d \<and> (\<forall>i<length cs. 0 \<le> m ! i \<and> m ! i \<le> cs ! i)"
proof -
  define N where "N = real_of_int (sum_list cs)"
  define x where "x = (\<lambda>c. real_of_int c / N * real d)"
  define continuous where "continuous = map x cs"
  define floored where "floored = map floor continuous"
  define rem where "rem = map (\<lambda>x. x - real_of_int \<lfloor>x\<rfloor>) continuous"
  have Npos: "0 < N" using pos by (simp add: N_def)
  have dN: "real d \<le> N" using le by (simp add: N_def)
  have xb: "0 \<le> x c \<and> x c \<le> real_of_int c" if "c \<in> set cs" for c
  proof -
    have c0: "0 \<le> real_of_int c" using nonneg that by simp
    have e: "x c = real_of_int c * (real d / N)" by (simp add: x_def)
    have q: "0 \<le> real d / N" "real d / N \<le> 1" using Npos dN by simp_all
    have "0 \<le> real_of_int c * (real d / N)" using c0 q(1) by (rule mult_nonneg_nonneg)
    moreover have "real_of_int c * (real d / N) \<le> real_of_int c * 1"
      using q(2) c0 by (rule mult_left_mono)
    ultimately show ?thesis unfolding e by simp
  qed
  have "sum_list continuous = real_of_int (sum_list cs) / N * real d"
    unfolding continuous_def x_def by (rule sum_list_scaled)
  then have sumx: "sum_list continuous = real d"
    using Npos by (simp add: N_def)
  have lenf: "length floored = length cs" by (simp add: floored_def continuous_def)
  have fl_nth: "floored ! i = \<lfloor>x (cs ! i)\<rfloor>" if "i < length cs" for i
    using that by (simp add: floored_def continuous_def)
  have rem_nth: "rem ! i = x (cs ! i) - real_of_int \<lfloor>x (cs ! i)\<rfloor>" if "i < length cs" for i
    using that by (simp add: rem_def continuous_def)
  have rem_b: "\<forall>r \<in> set rem. 0 \<le> r \<and> r < 1"
    by (auto simp: rem_def) linarith+
  have "sum_list rem = sum_list continuous - real_of_int (sum_list floored)"
    unfolding rem_def floored_def by (induction continuous) simp_all
  then have need_real: "real_of_int (int d - sum_list floored) = sum_list rem"
    using sumx by simp
  have fl_b: "0 \<le> floored ! i \<and> floored ! i \<le> cs ! i" if "i < length cs" for i
  proof -
    have "cs ! i \<in> set cs" using that by simp
    then have "0 \<le> x (cs ! i)" "x (cs ! i) \<le> real_of_int (cs ! i)" using xb by blast+
    then show ?thesis unfolding fl_nth [OF that] by (simp add: floor_le_iff)
  qed
  have am: "approximate_mode R cs d g =
      (if 0 < int d - sum_list floored
       then add_by_remainder R (rev (sort (remdups rem))) rem floored (nat (int d - sum_list floored)) g
       else (floored, g))"
    by (simp add: approximate_mode_def Let_def floored_def continuous_def rem_def x_def N_def)
  show ?thesis
  proof (cases "0 < int d - sum_list floored")
    case False
    have "0 \<le> sum_list rem" using rem_b by (simp add: sum_list_nonneg)
    then have "0 \<le> int d - sum_list floored" using need_real by linarith
    then have "sum_list floored = int d" using False by simp
    moreover have "m = floored" using res am False by simp
    ultimately show ?thesis using lenf fl_b by simp
  next
    case True
    let ?need = "nat (int d - sum_list floored)"
    let ?vs = "rev (sort (remdups rem))"
    have r: "add_by_remainder R ?vs rem floored ?need g = (m, g')"
      using res am True by simp
    have srt: "sorted_wrt (\<lambda>a b. b < a) ?vs"
    proof -
      have "sorted_wrt (<) (sort (remdups rem))"
        by (simp add: strict_sorted_iff)
      then show ?thesis by (simp add: sorted_wrt_rev)
    qed
    have "real ?need = sum_list rem" using need_real True by simp
    also have "\<dots> \<le> real (length (filter (\<lambda>x. x \<noteq> 0) rem))"
      by (rule sum_list_le_count [OF rem_b])
    also have "length (filter (\<lambda>x. x \<noteq> 0) rem) = cntpos rem ?vs"
      by (rule cntpos_all [symmetric]) simp
    finally have nd: "?need \<le> cntpos rem ?vs" by simp
    have lr: "length floored = length rem" by (simp add: floored_def rem_def)
    have rn: "\<forall>r \<in> set rem. 0 \<le> r" using rem_b by blast
    note P = add_by_remainder_props [OF ok rn lr srt nd r]
    have a: "length m = length cs" using P lenf by simp
    have b: "sum_list m = int d" using P True by simp
    have c: "0 \<le> m ! i \<and> m ! i \<le> cs ! i" if i: "i < length cs" for i
    proof -
      have "i < length floored" using i lenf by simp
      with P have "m ! i = floored ! i \<or> (m ! i = floored ! i + 1 \<and> rem ! i \<noteq> 0)"
        by blast
      then show ?thesis
      proof
        assume "m ! i = floored ! i"
        then show ?thesis using fl_b [OF i] by simp
      next
        assume h: "m ! i = floored ! i + 1 \<and> rem ! i \<noteq> 0"
        have "cs ! i \<in> set cs" using i by simp
        then have xu: "x (cs ! i) \<le> real_of_int (cs ! i)" using xb by blast
        have "x (cs ! i) \<noteq> real_of_int (cs ! i)"
        proof
          assume "x (cs ! i) = real_of_int (cs ! i)"
          then have "rem ! i = 0" by (simp add: rem_nth [OF i])
          then show False using h by simp
        qed
        then have "x (cs ! i) < real_of_int (cs ! i)" using xu by simp
        then have "\<lfloor>x (cs ! i)\<rfloor> < cs ! i" by (simp add: floor_less_iff)
        then show ?thesis using h fl_b [OF i] by (simp add: fl_nth [OF i])
      qed
    qed
    show ?thesis using a b c by blast
  qed
qed

lemma approximate_mode_exact:
  assumes "sum_list cs = int d" and "0 < d"
  shows "approximate_mode R cs d g = (cs, g)"
proof -
  have e: "real_of_int c / real_of_int (sum_list cs) * real d = real_of_int c" for c
    using assms by simp
  have "map floor (map (\<lambda>c. real_of_int c / real_of_int (sum_list cs) * real d) cs)
          = map (\<lambda>c. c) cs"
    unfolding map_map comp_def e by simp
  then have "map floor (map (\<lambda>c. real_of_int c / real_of_int (sum_list cs) * real d) cs) = cs"
    by simp
  then show ?thesis
    using assms(1) by (simp add: approximate_mode_def Let_def)
qed

subsection \<open>The positions drawn\<close>

lemma mset_positions_nth:
  assumes "mset ps = mset [0..<length xs]"
  shows "mset (map (\<lambda>i. xs ! i) ps) = mset xs"
proof -
  have "mset (map (\<lambda>i. xs ! i) ps) = image_mset (\<lambda>i. xs ! i) (mset ps)" by simp
  also have "\<dots> = image_mset (\<lambda>i. xs ! i) (mset [0..<length xs])" by (simp only: assms)
  also have "\<dots> = mset (map (\<lambda>i. xs ! i) [0..<length xs])" by simp
  also have "\<dots> = mset xs" by (simp only: map_nth)
  finally show ?thesis .
qed

lemma positions_in_range:
  assumes "mset ps = mset [0..<n]"
  shows "\<forall>i \<in> set ps. i < n"
proof -
  have "set ps = set [0..<n]" using assms by (rule mset_eq_setD)
  then show ?thesis by auto
qed

lemma take_clip_permutation:
  assumes "mset p = mset [0..<length a]"
  shows "mset (take_clip a p) = mset a" and "length (take_clip a p) = length a"
proof -
  have r: "\<forall>i \<in> set p. i < length a" using assms by (rule positions_in_range)
  then have "take_clip a p = map (\<lambda>i. a ! i) p"
    by (auto simp: take_clip_def min_def)
  then show "mset (take_clip a p) = mset a" using mset_positions_nth [OF assms] by simp
  have "length p = length [0..<length a]" using assms by (rule mset_eq_length)
  then show "length (take_clip a p) = length a" by (simp add: take_clip_def)
qed

lemma shuffled_mset:
  assumes "numpy_random_ok R" and "shuffled R xs g = (ys, g')"
  shows "mset ys = mset xs"
proof -
  obtain p g1 where p: "rng_permutation R (length xs) g = (p, g1)"
    by (cases "rng_permutation R (length xs) g")
  then have "mset p = mset [0..<length xs]"
    using assms(1) unfolding numpy_random_ok_def by (metis fst_conv)
  then have "mset (take_clip xs p) = mset xs" by (rule take_clip_permutation)
  then show ?thesis using assms(2) p by (simp add: shuffled_def)
qed

lemma class_loop_mset:
  assumes ok: "numpy_random_ok R"
  shows "(\<forall>i \<in> set is. i < length ci \<and> i < length cc \<and> i < length n_i \<and> i < length t_i
            \<and> cc ! i = int (length (ci ! i)) \<and> 0 \<le> n_i ! i \<and> n_i ! i \<le> cc ! i
            \<and> t_i ! i = cc ! i - n_i ! i)
     \<Longrightarrow> class_loop R cc ci n_i t_i is train test g = (train', test', g')
     \<Longrightarrow> mset (train' @ test') = mset (train @ test) + mset (concat (map (\<lambda>i. ci ! i) is))"
proof (induction "is" arbitrary: train test g)
  case Nil
  then show ?case by simp
next
  case (Cons i rest)
  obtain p g1 where p: "rng_permutation R (nat (cc ! i)) g = (p, g1)"
    by (cases "rng_permutation R (nat (cc ! i)) g")
  let ?a = "ci ! i"
  let ?pi = "take_clip ?a p"
  have hi: "cc ! i = int (length ?a)" "0 \<le> n_i ! i" "n_i ! i \<le> cc ! i" "t_i ! i = cc ! i - n_i ! i"
    using Cons.prems(1) by simp_all
  have "mset p = mset [0..<nat (cc ! i)]"
    using ok p unfolding numpy_random_ok_def by (metis fst_conv)
  then have mp: "mset p = mset [0..<length ?a]" using hi(1) by simp
  have m: "mset ?pi = mset ?a" and l: "length ?pi = length ?a"
    using take_clip_permutation [OF mp] by simp_all
  let ?n = "nat (n_i ! i)"
  have "nat (t_i ! i) = length ?pi - ?n" using hi l by simp
  then have "take (nat (t_i ! i)) (drop ?n ?pi) = drop ?n ?pi" by simp
  then have split: "mset (take ?n ?pi) + mset (take (nat (t_i ! i)) (drop ?n ?pi)) = mset ?a"
    using m by (metis append_take_drop_id mset_append)
  let ?train1 = "train @ take ?n ?pi"
  let ?test1 = "test @ take (nat (t_i ! i)) (drop ?n ?pi)"
  have r: "class_loop R cc ci n_i t_i rest ?train1 ?test1 g1 = (train', test', g')"
    using Cons.prems(2) p by (simp add: Let_def)
  have pre: "\<forall>i \<in> set rest. i < length ci \<and> i < length cc \<and> i < length n_i \<and> i < length t_i
            \<and> cc ! i = int (length (ci ! i)) \<and> 0 \<le> n_i ! i \<and> n_i ! i \<le> cc ! i
            \<and> t_i ! i = cc ! i - n_i ! i"
  proof
    fix j assume "j \<in> set rest"
    then have "j \<in> set (i # rest)" by simp
    then show "j < length ci \<and> j < length cc \<and> j < length n_i \<and> j < length t_i
            \<and> cc ! j = int (length (ci ! j)) \<and> 0 \<le> n_i ! j \<and> n_i ! j \<le> cc ! j
            \<and> t_i ! j = cc ! j - n_i ! j"
      using Cons.prems(1) by blast
  qed
  have "mset (train' @ test') = mset (?train1 @ ?test1) + mset (concat (map (\<lambda>i. ci ! i) rest))"
    by (rule Cons.IH [OF pre r])
  also have "mset (?train1 @ ?test1) = mset (train @ test) + mset ?a"
    using split by (simp add: ac_simps)
  finally show ?case by (simp add: ac_simps)
qed

lemma mset_filter_classes:
  assumes "distinct cs"
  shows "mset (concat (map (\<lambda>c. filter (\<lambda>j. f j = c) xs) cs)) = mset (filter (\<lambda>j. f j \<in> set cs) xs)"
  using assms
proof (induction cs)
  case Nil
  then show ?case by simp
next
  case (Cons c cs)
  have "mset (filter (\<lambda>j. f j \<in> set (c # cs)) xs)
          = mset (filter (\<lambda>j. f j = c) xs) + mset (filter (\<lambda>j. f j \<in> set cs) xs)"
    using Cons.prems by (induction xs) auto
  then show ?case using Cons by simp
qed

lemma count_list_positions:
  "count_list y c = length (filter (\<lambda>j. y ! j = c) [0..<length y])"
proof -
  have "length (filter (\<lambda>j. y ! j = c) [0..<length y])
          = length (filter (\<lambda>v. v = c) (map (\<lambda>j. y ! j) [0..<length y]))"
    by (simp add: filter_map comp_def)
  also have "\<dots> = length (filter (\<lambda>v. v = c) y)" by (simp only: map_nth)
  also have "\<dots> = count_list y c"
    by (induction y) auto
  finally show ?thesis by simp
qed

lemma stratified_shuffle_split_positions:
  assumes ok: "numpy_random_ok R"
    and sizes: "n_train + n_test = length y"
    and res: "stratified_shuffle_split R n_train n_test y = Inr (train, test)"
  shows "mset (train @ test) = mset [0..<length y]"
proof -
  define classes where "classes = sort (remdups y)"
  define cc where "cc = map (\<lambda>c. int (count_list y c)) classes"
  define ci where "ci = map (\<lambda>c. filter (\<lambda>j. y ! j = c) [0..<length y]) classes"
  have dc: "distinct classes" and sc: "set classes = set y" by (simp_all add: classes_def)
  have unf: "stratified_shuffle_split R n_train n_test y =
      (if cc = [] \<or> list_ex (\<lambda>c. c < 2) cc then Inl ValueError
       else if n_train < length classes then Inl ValueError
       else if n_test < length classes then Inl ValueError
       else
         (case approximate_mode R cc n_train (seed_state R) of (n_i, g1) \<Rightarrow>
          case approximate_mode R (map2 (\<lambda>c n. c - n) cc n_i) n_test g1 of (t_i, g2) \<Rightarrow>
          case class_loop R cc ci n_i t_i [0..<length classes] [] [] g2 of (train, test, g3) \<Rightarrow>
          case shuffled R train g3 of (train', g4) \<Rightarrow>
          case shuffled R test g4 of (test', g5) \<Rightarrow> Inr (train', test')))"
    by (simp add: stratified_shuffle_split_def Let_def classes_def cc_def ci_def)
  have noerr: "cc \<noteq> []" "\<not> list_ex (\<lambda>c. c < 2) cc" "\<not> n_train < length classes"
    "\<not> n_test < length classes"
    using res unfolding unf by (simp_all split: if_splits)
  have ncl: "0 < length classes" using noerr(1) by (simp add: cc_def)
  obtain n_i g1 where a1: "approximate_mode R cc n_train (seed_state R) = (n_i, g1)"
    by (cases "approximate_mode R cc n_train (seed_state R)")
  define rmn where "rmn = map2 (\<lambda>c n. c - n) cc n_i"
  obtain t_i g2 where a2: "approximate_mode R rmn n_test g1 = (t_i, g2)"
    by (cases "approximate_mode R rmn n_test g1")
  obtain tr te g3 where cl: "class_loop R cc ci n_i t_i [0..<length classes] [] [] g2 = (tr, te, g3)"
    by (cases "class_loop R cc ci n_i t_i [0..<length classes] [] [] g2") auto
  obtain tr' g4 where s1: "shuffled R tr g3 = (tr', g4)" by (cases "shuffled R tr g3")
  obtain te' g5 where s2: "shuffled R te g4 = (te', g5)" by (cases "shuffled R te g4")
  have "stratified_shuffle_split R n_train n_test y = Inr (tr', te')"
    unfolding unf using noerr by (simp add: a1 rmn_def [symmetric] a2 cl s1 s2)
  then have out: "train = tr'" "test = te'"
    using res by simp_all
  have all: "mset (concat ci) = mset [0..<length y]"
  proof -
    have "mset (concat ci) = mset (filter (\<lambda>j. y ! j \<in> set classes) [0..<length y])"
      unfolding ci_def by (rule mset_filter_classes [OF dc])
    also have "filter (\<lambda>j. y ! j \<in> set classes) [0..<length y] = [0..<length y]"
      by (simp add: sc filter_id_conv)
    finally show ?thesis .
  qed
  have lens: "length cc = length classes" "length ci = length classes"
    by (simp_all add: cc_def ci_def)
  have cci: "cc ! i = int (length (ci ! i))" if "i < length classes" for i
    using that by (simp add: cc_def ci_def count_list_positions)
  have "sum_list cc = int (length (concat ci))"
  proof -
    have "cc = map (\<lambda>a. int (length a)) ci"
      by (simp add: cc_def ci_def count_list_positions comp_def)
    moreover have "sum_list (map (\<lambda>a. int (length a)) xs) = int (length (concat xs))"
      for xs :: "nat list list"
      by (induction xs) simp_all
    ultimately show ?thesis by simp
  qed
  also have "length (concat ci) = length y"
    using all by (metis length_upt mset_eq_length minus_nat.diff_0)
  finally have sumcc: "sum_list cc = int (length y)" .
  have ypos: "0 < length y" using ncl sc by (cases y) (auto simp: classes_def)
  have ccn: "\<forall>c \<in> set cc. 0 \<le> c" by (simp add: cc_def)
  have P1: "length n_i = length cc" "sum_list n_i = int n_train"
    "\<forall>i<length cc. 0 \<le> n_i ! i \<and> n_i ! i \<le> cc ! i"
    using approximate_mode_props [OF ok ccn _ _ a1] sumcc ypos sizes by auto
  have lr: "length rmn = length cc" by (simp add: rmn_def P1(1))
  have rn: "rmn ! i = cc ! i - n_i ! i" if "i < length cc" for i
    using that by (simp add: rmn_def P1(1))
  have "sum_list rmn = sum_list cc - sum_list n_i"
  proof -
    have "length cc = length n_i \<Longrightarrow> sum_list (map2 (\<lambda>c n. c - n) cc n_i) = sum_list cc - sum_list n_i"
      for cc n_i :: "int list"
      by (induction cc n_i rule: list_induct2) simp_all
    then show ?thesis by (simp add: rmn_def P1(1))
  qed
  then have sr: "sum_list rmn = int n_test" using sumcc P1(2) sizes by simp
  have ntp: "0 < n_test" using noerr(4) ncl by linarith
  have t: "t_i = rmn" using approximate_mode_exact [OF sr ntp, of R g1] a2 by simp
  have pre: "\<forall>i \<in> set [0..<length classes]. i < length ci \<and> i < length cc \<and> i < length n_i
            \<and> i < length t_i \<and> cc ! i = int (length (ci ! i)) \<and> 0 \<le> n_i ! i
            \<and> n_i ! i \<le> cc ! i \<and> t_i ! i = cc ! i - n_i ! i"
    using lens P1 lr t rn cci by auto
  have "mset (tr @ te) = mset ([] @ []) + mset (concat (map (\<lambda>i. ci ! i) [0..<length classes]))"
    by (rule class_loop_mset [OF ok pre cl])
  also have "map (\<lambda>i. ci ! i) [0..<length classes] = ci"
    using lens(2) by (metis map_nth)
  finally have "mset (tr @ te) = mset [0..<length y]" using all by simp
  moreover have "mset tr' = mset tr" "mset te' = mset te"
    using shuffled_mset [OF ok s1] shuffled_mset [OF ok s2] by simp_all
  ultimately show ?thesis by (simp add: out)
qed

lemma validate_shuffle_split_sizes:
  assumes "validate_shuffle_split n t = Inr (n_train, n_test)"
  shows "n_train + n_test = n \<and> 0 < n_train"
proof -
  from assms have t: "0 < t" "t < 1" and nt: "n_test = nat \<lceil>t * real n\<rceil>" and ntr: "n_train = n - n_test"
    and pos: "n_train \<noteq> 0"
    by (auto simp: validate_shuffle_split_def Let_def split: if_splits)
  have "t * real n \<le> real n" using t by (simp add: mult_left_le_one_le)
  then have "\<lceil>t * real n\<rceil> \<le> int n" by (simp add: ceiling_le_iff)
  then have "nat \<lceil>t * real n\<rceil> \<le> n" by linarith
  then have "n_test \<le> n" by (simp only: nt)
  then show ?thesis using ntr pos by simp
qed

subsection \<open>The three partitions\<close>







text \<open>\<open>train_test_split\<close> raises ValueError and nothing else, and exactly for arrays of
  different lengths, an empty train set, a class with fewer than two members, or fewer
  train or test rows than classes.\<close>

lemma train_test_split_raises:
  assumes ok: "numpy_random_ok R"
  shows "train_test_split R X y t \<noteq> Inl KeyError \<and> train_test_split R X y t \<noteq> Inl IndexError
       \<and> (train_test_split R X y t = Inl ValueError \<longleftrightarrow>
            length (s_values y) \<noteq> length (df_index X)
          \<or> (case validate_shuffle_split (length (df_index X)) t of
                Inl e \<Rightarrow> True
              | Inr (n_train, n_test) \<Rightarrow>
                  list_ex (\<lambda>c. count_list (s_values y) c < 2) (remdups (s_values y))
                  \<or> n_train < length (remdups (s_values y))
                  \<or> n_test < length (remdups (s_values y))))"
proof (cases "length (s_values y) = length (df_index X)")
  case False
  then show ?thesis by (simp add: train_test_split_def)
next
  case len: True
  show ?thesis
  proof (cases "validate_shuffle_split (length (df_index X)) t")
    case (Inl e)
    then have "e = ValueError"
      by (auto simp: validate_shuffle_split_def Let_def split: if_splits)
    then show ?thesis using Inl len by (simp add: train_test_split_def bind_e_def)
  next
    case (Inr p)
    obtain n_train n_test where p: "p = (n_train, n_test)" by (cases p)
    have sz: "n_train + n_test = length (s_values y)" "0 < n_train"
      using validate_shuffle_split_sizes [of "length (df_index X)" t n_train n_test] Inr p len
      by simp_all
    let ?cs = "remdups (s_values y)"
    let ?bad = "list_ex (\<lambda>c. count_list (s_values y) c < 2) ?cs \<or> n_train < length ?cs
                  \<or> n_test < length ?cs"
    have ne: "?cs \<noteq> []" using sz by (cases "s_values y") auto
    then have ne': "sort ?cs \<noteq> []" by (metis length_sort length_0_conv)
    have ex: "list_ex (\<lambda>c. c < 2) (map (\<lambda>c. int (count_list (s_values y) c)) (sort ?cs))
                \<longleftrightarrow> list_ex (\<lambda>c. count_list (s_values y) c < 2) ?cs"
      by (auto simp: list_ex_iff)
    show ?thesis
    proof (cases ?bad)
      case True
      then have "stratified_shuffle_split R n_train n_test (s_values y) = Inl ValueError"
        using ex by (auto simp: stratified_shuffle_split_def Let_def)
      then show ?thesis using True Inr p len by (simp add: train_test_split_def bind_e_def)
    next
      case False
      then have "\<exists>p. stratified_shuffle_split R n_train n_test (s_values y) = Inr p"
        using ex ne' by (simp add: stratified_shuffle_split_def Let_def split_def)
      then obtain train test where
        s: "stratified_shuffle_split R n_train n_test (s_values y) = Inr (train, test)"
        by force
      have "mset (train @ test) = mset [0..<length (s_values y)]"
        by (rule stratified_shuffle_split_positions [OF ok sz(1) s])
      then have "\<forall>i \<in> set (train @ test). i < length (s_values y)"
        by (rule positions_in_range)
      then have "list_all (\<lambda>i. i < length (df_index X)) (train @ test)"
        using len by (simp add: list_all_iff)
      then have "train_test_split R X y t
          = Inr (take_rows X train, take_rows X test, take_values y train, take_values y test)"
        using Inr p len s by (simp add: train_test_split_def bind_e_def)
      then show ?thesis using False Inr p len by simp
    qed
  qed
qed



text \<open>The split cell raises nothing but the KeyError for a missing \<open>Risk\<close> column and the
  ValueError of the library.\<close>

lemma split_cell_errors:
  assumes ok: "numpy_random_ok R" and err: "split_cell R df = Inl e"
  shows "(df_cols df ''Risk'' = None \<and> e = KeyError) \<or> (df_cols df ''Risk'' \<noteq> None \<and> e = ValueError)"
proof (cases "df_cols df ''Risk''")
  case None
  then show ?thesis using err by (simp add: split_cell_def drop_column_def bind_e_def)
next
  case (Some r)
  define X0 where "X0 = df\<lparr>df_cols := (df_cols df)(''Risk'' := None)\<rparr>"
  define y0 where "y0 = \<lparr>s_index = df_index df, s_values = r\<rparr>"
  define X where "X = select_rows X0 (notnull y0)"
  define y where "y = select_values y0 (notnull y0)"
  have d: "drop_column df ''Risk'' = Inr X0" "column df ''Risk'' = Inr y0"
    by (simp_all add: drop_column_def column_def getitem_def Some X0_def y0_def)
  have sc: "split_cell R df =
     bind_e (train_test_split R X y 0.3) (\<lambda>(X_train, X_temp, y_train, y_temp).
     bind_e (train_test_split R X_temp y_temp 0.5) (\<lambda>(X_val, X_test, y_val, y_test).
     Inr (X_train, X_val, X_test, y_train, y_val, y_test)))"
    by (simp only: split_cell_def d bind_e_def Let_def sum.case X_def y_def)
  have only: "train_test_split R A b t = Inl e' \<Longrightarrow> e' = ValueError" for A b t e'
    using train_test_split_raises [OF ok, of A b t] by (cases e') auto
  show ?thesis
  proof (cases "train_test_split R X y 0.3")
    case (Inl e1)
    then have "e1 = e" using err by (simp add: sc bind_e_def)
    then show ?thesis using only Inl Some by blast
  next
    case (Inr q)
    obtain X_train X_temp y_train y_temp where q: "q = (X_train, X_temp, y_train, y_temp)"
      by (cases q)
    have "train_test_split R X_temp y_temp 0.5 = Inl e"
      using err Inr q by (auto simp: sc bind_e_def split: sum.splits)
    then show ?thesis using only Some by blast
  qed
qed














text \<open>The library refuses to stratify when a class has a single member: of the four labelled
  rows of \<open>small_sample\<close> only one is of class 1, and the split cell raises ValueError
  whatever the generator draws.\<close>

lemma small_sample_raises: "split_cell R small_sample = Inl ValueError"
proof -
  define X0 where "X0 = small_sample\<lparr>df_cols := (df_cols small_sample)(''Risk'' := None)\<rparr>"
  define y0 where "y0 = \<lparr>s_index = df_index small_sample,
                          s_values = [Some 0, None, Some 1, Some 0, Some 0]\<rparr>"
  have d: "drop_column small_sample ''Risk'' = Inr X0" "column small_sample ''Risk'' = Inr y0"
    by (simp_all add: drop_column_def column_def getitem_def X0_def y0_def small_sample_def)
  have mp: "mask_positions (notnull y0) = [0, 2, 3, 4]"
    by (simp add: mask_positions_def notnull_def y0_def upt_rec)
  define X where "X = take_rows X0 [0, 2, 3, 4]"
  define y where "y = take_values y0 [0, 2, 3, 4]"
  have sel: "select_rows X0 (notnull y0) = X" "select_values y0 (notnull y0) = y"
    by (simp_all add: select_rows_def select_values_def mp X_def y_def)
  have lX: "length (df_index X) = 4" by (simp add: X_def take_rows_def)
  have yv: "s_values y = [Some 0, Some 1, Some 0, Some 0]"
    by (simp add: y_def take_values_def y0_def)
  have v: "validate_shuffle_split 4 0.3 = Inr (2, 2)"
    by (simp add: validate_shuffle_split_def Let_def)
  have s: "stratified_shuffle_split R 2 2 [Some 0, Some 1, Some 0, Some 0] = Inl ValueError"
    by (simp add: stratified_shuffle_split_def Let_def)
  have s1: "train_test_split R X y 0.3 = Inl ValueError"
    unfolding train_test_split_def lX yv v bind_e_def sum.case prod.case s
    by simp
  show ?thesis
    by (simp only: split_cell_def d bind_e_def Let_def sel s1 sum.case)
qed

end
